theory Spec2Isabelle
  imports Complex_Main "HOL-Library.Sublist"
begin

section \<open>Python values and builtins used by the ingestion code\<close>

text \<open>
  The rows that \<^verbatim>\<open>csv.DictReader\<close> yields are dictionaries from column names to
  strings; a row shorter than the header carries Python's \<^verbatim>\<open>None\<close> for the columns it
  lacks. The defaults of \<^verbatim>\<open>row.get(key, 0)\<close> are integers. A character of a
  \<^typ>\<open>string\<close> stands for a code point below 256.
\<close>

datatype pyval = PyNone | PyStr string | PyInt int

type_synonym csv_row = "string \<Rightarrow> pyval option"

text \<open>
  A Python float is a rational number, an infinity or a NaN. The comparison
  \<^verbatim>\<open>x < 0\<close> is false for NaN and for both zeros.
\<close>

datatype pyfloat = Finite rat | PosInf | NegInf | NaN

fun float_lt_zero :: "pyfloat \<Rightarrow> bool" where
  "float_lt_zero (Finite q) = (q < 0)"
| "float_lt_zero NegInf = True"
| "float_lt_zero PosInf = False"
| "float_lt_zero NaN = False"

text \<open>
  Exceptions inside \<^verbatim>\<open>validate_user_data\<close>: the \<^verbatim>\<open>ValueError\<close>s the function raises
  itself, with their text, and the exceptions of the builtins (\<^verbatim>\<open>int\<close>, \<^verbatim>\<open>float\<close>,
  \<^verbatim>\<open>strip\<close> on \<^verbatim>\<open>None\<close>), whose text is not modelled.
\<close>

datatype exn = ValueError string | BuiltinError

definition isspace :: "char \<Rightarrow> bool" where
  "isspace c = (c \<in> set [CHR 0x09, CHR 0x0A, CHR 0x0B, CHR 0x0C, CHR 0x0D,
                         CHR 0x1C, CHR 0x1D, CHR 0x1E, CHR 0x1F, CHR 0x20,
                         CHR 0x85, CHR 0xA0])"

definition strip :: "string \<Rightarrow> string" where
  "strip s = rev (dropWhile isspace (rev (dropWhile isspace s)))"

definition isdigit :: "char \<Rightarrow> bool" where
  "isdigit c = (c \<in> set ''0123456789'')"

definition digit_val :: "char \<Rightarrow> nat" where
  "digit_val c = of_char c - 48"

definition digit_char :: "nat \<Rightarrow> char" where
  "digit_char d = ''0123456789'' ! d"

text \<open>\<^verbatim>\<open>str(n)\<close> for a natural number and for an integer.\<close>

fun str_nat :: "nat \<Rightarrow> string" where
  "str_nat n = (if n < 10 then [digit_char n] else str_nat (n div 10) @ [digit_char (n mod 10)])"

declare str_nat.simps [simp del]

definition str_int :: "int \<Rightarrow> string" where
  "str_int i = (if i < 0 then CHR ''-'' # str_nat (nat (- i)) else str_nat (nat i))"

text \<open>
  The digits of an integer literal as \<^verbatim>\<open>int(str)\<close> reads them: decimal digits, with
  single underscores allowed between two digits. The flag says whether the previous
  character was a digit.
\<close>

fun digit_groups :: "bool \<Rightarrow> string \<Rightarrow> bool" where
  "digit_groups prev [] = prev"
| "digit_groups prev (c # cs) =
     (if isdigit c then digit_groups True cs
      else c = CHR ''_'' \<and> prev \<and> digit_groups False cs)"

text \<open>
  \<^verbatim>\<open>int(str)\<close> skips white space at both ends, reads one optional sign and then the
  digits. The white space it skips is not that of \<^verbatim>\<open>str.strip\<close>: of the ASCII characters
  only tab, line feed, vertical tab, form feed, carriage return and space, and beyond
  ASCII the Unicode spaces (below 256: U+0085 and U+00A0); the separators U+001C to
  U+001F make the literal invalid. The digits are 0 to 9, the only decimal digits below
  256. A literal of more than 4300 digits raises \<^verbatim>\<open>ValueError\<close> (the interpreter's
  default limit, which counts leading zeros but neither the sign nor the underscores).
\<close>

definition int_space :: "char \<Rightarrow> bool" where
  "int_space c = (c \<in> set [CHR 0x09, CHR 0x0A, CHR 0x0B, CHR 0x0C, CHR 0x0D, CHR 0x20,
                           CHR 0x85, CHR 0xA0])"

definition int_max_str_digits :: nat where
  "int_max_str_digits = 4300"

definition int_of_str :: "string \<Rightarrow> int option" where
  "int_of_str s =
     (let t = rev (dropWhile int_space (rev (dropWhile int_space s)));
          neg = (t \<noteq> [] \<and> hd t = CHR ''-'');
          body = (if t \<noteq> [] \<and> (hd t = CHR ''-'' \<or> hd t = CHR ''+'') then tl t else t);
          n = int (foldl (\<lambda>a c. 10 * a + digit_val c) 0 (filter isdigit body))
      in if digit_groups False body \<and> length (filter isdigit body) \<le> int_max_str_digits
         then Some (if neg then - n else n) else None)"

definition row_get :: "csv_row \<Rightarrow> string \<Rightarrow> pyval \<Rightarrow> pyval" where
  "row_get row k dflt = (case row k of None \<Rightarrow> dflt | Some v \<Rightarrow> v)"

fun py_strip :: "pyval \<Rightarrow> exn + string" where
  "py_strip (PyStr s) = Inr (strip s)"
| "py_strip PyNone = Inl BuiltinError"
| "py_strip (PyInt n) = Inl BuiltinError"

fun py_int :: "pyval \<Rightarrow> exn + int" where
  "py_int (PyInt n) = Inr n"
| "py_int (PyStr s) = (case int_of_str s of None \<Rightarrow> Inl BuiltinError | Some n \<Rightarrow> Inr n)"
| "py_int PyNone = Inl BuiltinError"

text \<open>
  \<^verbatim>\<open>float(str)\<close> rounds to an IEEE double; the reading of a string is a parameter
  \<open>float_of_str\<close> of the model (\<open>None\<close> where Python raises \<^verbatim>\<open>ValueError\<close>).
\<close>

fun py_float :: "(string \<Rightarrow> pyfloat option) \<Rightarrow> pyval \<Rightarrow> exn + pyfloat" where
  "py_float float_of_str (PyInt n) = Inr (Finite (of_int n))"
| "py_float float_of_str (PyStr s) =
     (case float_of_str s of None \<Rightarrow> Inl BuiltinError | Some x \<Rightarrow> Inr x)"
| "py_float float_of_str PyNone = Inl BuiltinError"

section \<open>csv\_processor: validate\_user\_data\<close>

record user =
  email :: string
  monthly_income :: pyfloat
  credit_score :: int
  employment_status :: string
  age :: int

text \<open>The body of the \<^verbatim>\<open>try\<close> block: the validated record, or the exception raised.\<close>

definition validate_user_data_try :: "(string \<Rightarrow> pyfloat option) \<Rightarrow> csv_row \<Rightarrow> exn + user" where
  "validate_user_data_try float_of_str row =
     (case py_strip (row_get row ''email'' (PyStr '''')) of
        Inl e \<Rightarrow> Inl e
      | Inr em \<Rightarrow>
          if em = [] \<or> CHR ''@'' \<notin> set em then Inl (ValueError ''Invalid email'')
          else
            (case py_float float_of_str (row_get row ''monthly_income'' (PyInt 0)) of
               Inl e \<Rightarrow> Inl e
             | Inr mi \<Rightarrow>
                 (case py_int (row_get row ''credit_score'' (PyInt 0)) of
                    Inl e \<Rightarrow> Inl e
                  | Inr cs \<Rightarrow>
                      (case py_int (row_get row ''age'' (PyInt 0)) of
                         Inl e \<Rightarrow> Inl e
                       | Inr ag \<Rightarrow>
                           if cs < 300 \<or> cs > 850 then
                             Inl (ValueError (''Credit score '' @ str_int cs @ '' out of range (300-850)''))
                           else if ag < 18 \<or> ag > 100 then
                             Inl (ValueError (''Age '' @ str_int ag @ '' out of range (18-100)''))
                           else if float_lt_zero mi then
                             Inl (ValueError ''Monthly income cannot be negative'')
                           else
                             (case py_strip (row_get row ''employment_status'' (PyStr '''')) of
                                Inl e \<Rightarrow> Inl e
                              | Inr es \<Rightarrow>
                                  Inr \<lparr>email = em, monthly_income = mi, credit_score = cs,
                                       employment_status = es, age = ag\<rparr>)))))"

text \<open>
  The \<^verbatim>\<open>except Exception\<close> clause logs the exception and returns \<^verbatim>\<open>None\<close>: the text
  of the exception does not leave the function.
\<close>

definition validate_user_data :: "(string \<Rightarrow> pyfloat option) \<Rightarrow> csv_row \<Rightarrow> user option" where
  "validate_user_data float_of_str row =
     (case validate_user_data_try float_of_str row of Inl e \<Rightarrow> None | Inr u \<Rightarrow> Some u)"

section \<open>db\_utils: the relational store\<close>

text \<open>
  The \<^verbatim>\<open>users\<close> table. \<^verbatim>\<open>schema.sql\<close> is not among the sources, so the columns
  are those the statements name; \<open>None\<close> in a text column is SQL's \<^verbatim>\<open>NULL\<close>, and
  \<open>None\<close> in \<open>col_user_id\<close> and \<open>col_name\<close> also stands for the column default of a
  statement that does not supply the column.
\<close>

record users_row =
  col_user_id :: "string option"
  col_name :: "string option"
  col_email :: "string option"
  col_monthly_income :: pyfloat
  col_credit_score :: int
  col_employment_status :: "string option"
  col_age :: int
  created_at :: nat
  updated_at :: nat

record csv_uploads_row =
  up_file_name :: string
  up_s3_key :: string
  up_status :: string
  up_total_records :: "nat option"
  up_processed_records :: "nat option"
  up_failed_records :: "nat option"
  up_error_message :: "string option"
  up_processed_at :: "nat option"

record db_state =
  users :: "users_row list"
  csv_uploads :: "nat \<Rightarrow> csv_uploads_row option"
  upload_id_seq :: nat

text \<open>
  What the store answers to one statement: it applies it, the driver refuses the
  parameters before anything is sent (the transaction is untouched), or the server
  raises an error (the transaction is then aborted).
\<close>

datatype stmt_outcome = Accepted | ClientError string | ServerError string

datatype db_op = CreateUpload | InsertBatch | UpdateStatus string | LegacyInsert

datatype notification = Skipped | Requested string "(string \<times> string) list" "string + nat"

text \<open>
  Everything outside the program, as one record: the object store, the csv reader
  (\<open>Inl\<close> is the text of the exception raised), Python's \<^verbatim>\<open>float\<close> on strings, the
  faults of the database (per scoped cursor: the connection cannot be opened or the
  commit fails; per statement: the outcome for the parameters the statement is given,
  \<open>execute_outcome\<close> for \<^verbatim>\<open>insert_users_batch\<close> and \<open>legacy_execute_outcome\<close> for
  \<^verbatim>\<open>process_csv.lambda_handler\<close>), the webhook configuration, the HTTP client and
  the clock.
\<close>

record env =
  get_object :: "string \<Rightarrow> string \<Rightarrow> string + string"
  csv_reader :: "string \<Rightarrow> string + string list list"
  float_of_str :: "string \<Rightarrow> pyfloat option"
  db_fault :: "db_op \<Rightarrow> string option"
  execute_outcome :: "user \<Rightarrow> stmt_outcome"
  legacy_execute_outcome :: "users_row \<Rightarrow> stmt_outcome"
  webhook_url :: "string option"
  requests_post :: "string \<Rightarrow> (string \<times> string) list \<Rightarrow> string + nat"
  current_timestamp :: nat

text \<open>
  A transaction of PostgreSQL as psycopg2 runs it without autocommit: the statements
  work on a private copy; after a server error every later statement is refused until
  the transaction ends; a commit of an aborted transaction is a rollback and raises
  nothing. The text of a server error, as \<^verbatim>\<open>str\<close> of the exception gives it, ends with a
  line feed.
\<close>

record tx =
  work :: db_state
  aborted :: bool

definition in_failed_transaction :: string where
  "in_failed_transaction =
     ''current transaction is aborted, commands ignored until end of transaction block''
       @ [CHR 0x0A]"

definition cursor_execute :: "stmt_outcome \<Rightarrow> (db_state \<Rightarrow> 'a \<times> db_state) \<Rightarrow> tx \<Rightarrow> (string + 'a) \<times> tx" where
  "cursor_execute outcome stmt t =
     (case outcome of
        ClientError e \<Rightarrow> (Inl e, t)
      | ServerError e \<Rightarrow>
          if aborted t then (Inl in_failed_transaction, t) else (Inl e, t\<lparr>aborted := True\<rparr>)
      | Accepted \<Rightarrow>
          if aborted t then (Inl in_failed_transaction, t)
          else (case stmt (work t) of (a, d) \<Rightarrow> (Inr a, t\<lparr>work := d\<rparr>)))"

text \<open>
  \<^verbatim>\<open>get_db_cursor\<close>: the body runs in one transaction, committed when the body
  returns. A fault of the scope (no connection, failed commit) raises and applies
  nothing.
\<close>

definition get_db_cursor :: "string option \<Rightarrow> (tx \<Rightarrow> 'a \<times> tx) \<Rightarrow> db_state \<Rightarrow> string + ('a \<times> db_state)" where
  "get_db_cursor fault body d =
     (case fault of
        Some e \<Rightarrow> Inl e
      | None \<Rightarrow>
          (case body \<lparr>work = d, aborted = False\<rparr> of
             (a, t) \<Rightarrow> Inr (a, if aborted t then d else work t)))"

subsection \<open>insert\_users\_batch\<close>

text \<open>
  Modelled from the spec: the column defaults of \<^verbatim>\<open>schema.sql\<close>, which is not among the
  sources. \<^verbatim>\<open>created_at\<close> and \<^verbatim>\<open>updated_at\<close> are columns of the users table (section 6 of
  the specification); a row that a statement inserts receives the time of the
  transaction in both. The row below is the one the statement of \<^verbatim>\<open>insert_users_batch\<close>
  proposes for a record.
\<close>

definition proposed_row :: "nat \<Rightarrow> user \<Rightarrow> users_row" where
  "proposed_row now u =
     \<lparr>col_user_id = None, col_name = None, col_email = Some (email u),
      col_monthly_income = monthly_income u, col_credit_score = credit_score u,
      col_employment_status = Some (employment_status u), col_age = age u,
      created_at = now, updated_at = now\<rparr>"

definition conflicts :: "users_row \<Rightarrow> users_row \<Rightarrow> bool" where
  "conflicts new r = (col_email new \<noteq> None \<and> col_email r = col_email new)"

text \<open>\<^verbatim>\<open>INSERT ... ON CONFLICT (email) DO UPDATE SET ...\<close>\<close>

definition insert_on_conflict_update :: "users_row \<Rightarrow> users_row list \<Rightarrow> users_row list" where
  "insert_on_conflict_update new tbl =
     (if list_ex (conflicts new) tbl then
        map (\<lambda>r. if conflicts new r then
                    r\<lparr>col_monthly_income := col_monthly_income new,
                      col_credit_score := col_credit_score new,
                      col_employment_status := col_employment_status new,
                      col_age := col_age new,
                      updated_at := updated_at new\<rparr>
                  else r) tbl
      else tbl @ [new])"

definition execute_upsert :: "env \<Rightarrow> user \<Rightarrow> tx \<Rightarrow> (string + unit) \<times> tx" where
  "execute_upsert ev u t =
     (let new = proposed_row (current_timestamp ev) u in
      cursor_execute (execute_outcome ev u)
        (\<lambda>d. ((), d\<lparr>users := insert_on_conflict_update new (users d)\<rparr>)) t)"

text \<open>The loop of \<^verbatim>\<open>insert_users_batch\<close>, with its three counters and the cursor.\<close>

fun insert_users_loop :: "env \<Rightarrow> user list \<Rightarrow> (nat \<times> nat \<times> string list) \<times> tx \<Rightarrow> (nat \<times> nat \<times> string list) \<times> tx" where
  "insert_users_loop ev [] acc = acc"
| "insert_users_loop ev (u # us) ((success_count, failed_count, errors), t) =
     (case execute_upsert ev u t of
        (Inr _, t') \<Rightarrow> insert_users_loop ev us ((success_count + 1, failed_count, errors), t')
      | (Inl e, t') \<Rightarrow>
          insert_users_loop ev us
            ((success_count, failed_count + 1,
              errors @ [''Failed to insert user '' @ email u @ '': '' @ e]), t'))"

definition insert_users_batch :: "env \<Rightarrow> user list \<Rightarrow> db_state \<Rightarrow> string + ((nat \<times> nat \<times> string list) \<times> db_state)" where
  "insert_users_batch ev users_data d =
     get_db_cursor (db_fault ev InsertBatch)
       (\<lambda>t. insert_users_loop ev users_data ((0, 0, []), t)) d"

subsection \<open>The lifecycle record of an upload\<close>

definition create_csv_upload_record :: "env \<Rightarrow> string \<Rightarrow> string \<Rightarrow> db_state \<Rightarrow> string + (nat \<times> db_state)" where
  "create_csv_upload_record ev fname key d =
     get_db_cursor (db_fault ev CreateUpload)
       (\<lambda>t. let i = upload_id_seq (work t) in
             (i, t\<lparr>work := (work t)
                     \<lparr>csv_uploads := (csv_uploads (work t))
                        (i \<mapsto> \<lparr>up_file_name = fname, up_s3_key = key, up_status = ''pending'',
                                up_total_records = None, up_processed_records = None,
                                up_failed_records = None, up_error_message = None,
                                up_processed_at = None\<rparr>),
                      upload_id_seq := i + 1\<rparr>\<rparr>)) d"

definition set_if_given :: "'a option \<Rightarrow> 'a option \<Rightarrow> 'a option" where
  "set_if_given arg old = (case arg of None \<Rightarrow> old | Some v \<Rightarrow> Some v)"

definition update_row :: "nat \<Rightarrow> string \<Rightarrow> nat option \<Rightarrow> nat option \<Rightarrow> nat option \<Rightarrow> string option \<Rightarrow> csv_uploads_row \<Rightarrow> csv_uploads_row" where
  "update_row now st n_total n_processed n_failed err r =
     r\<lparr>up_status := st,
       up_total_records := set_if_given n_total (up_total_records r),
       up_processed_records := set_if_given n_processed (up_processed_records r),
       up_failed_records := set_if_given n_failed (up_failed_records r),
       up_error_message := set_if_given err (up_error_message r),
       up_processed_at := (if st = ''completed'' \<or> st = ''failed'' then Some now
                        else up_processed_at r)\<rparr>"

definition update_csv_upload_status :: "env \<Rightarrow> nat \<Rightarrow> string \<Rightarrow> nat option \<Rightarrow> nat option \<Rightarrow> nat option \<Rightarrow> string option \<Rightarrow> db_state \<Rightarrow> string + (unit \<times> db_state)" where
  "update_csv_upload_status ev upload_id st n_total n_processed n_failed err d =
     get_db_cursor (db_fault ev (UpdateStatus st))
       (\<lambda>t. ((), t\<lparr>work := (work t)
                     \<lparr>csv_uploads :=
                        (case csv_uploads (work t) upload_id of
                           None \<Rightarrow> csv_uploads (work t)
                         | Some r \<Rightarrow> (csv_uploads (work t))
                             (upload_id \<mapsto> update_row (current_timestamp ev) st n_total n_processed n_failed err r))\<rparr>\<rparr>)) d"

section \<open>csv\_processor: the orchestrator\<close>

text \<open>
  \<^verbatim>\<open>csv.DictReader\<close> over the records of the reader: the first record holds the field
  names, empty records are skipped, a short record is padded with \<^verbatim>\<open>None\<close>, and of two
  columns of one name the later wins. The surplus values of a long record go under
  the key \<^verbatim>\<open>None\<close>, which no lookup of the program reads.
\<close>

definition dict_row :: "string list \<Rightarrow> string list \<Rightarrow> csv_row" where
  "dict_row fieldnames vals =
     map_of (rev (zip fieldnames
       (map PyStr vals @ replicate (length fieldnames - length vals) PyNone)))"

definition DictReader :: "string list list \<Rightarrow> csv_row list" where
  "DictReader recs =
     (case recs of
        [] \<Rightarrow> []
      | fieldnames # rest \<Rightarrow> map (dict_row fieldnames) (filter (\<lambda>r. r \<noteq> []) rest))"

text \<open>The \<^verbatim>\<open>for row in csv_reader\<close> loop, with the four variables it updates.\<close>

fun validate_rows :: "(string \<Rightarrow> pyfloat option) \<Rightarrow> csv_row list \<Rightarrow> user list \<times> nat \<times> nat \<times> string list \<Rightarrow> user list \<times> nat \<times> nat \<times> string list" where
  "validate_rows fp [] acc = acc"
| "validate_rows fp (row # rows) (users_data, total_records, invalid_records, errors) =
     (case validate_user_data fp row of
        Some validated_data \<Rightarrow>
          validate_rows fp rows
            (users_data @ [validated_data], total_records + 1, invalid_records, errors)
      | None \<Rightarrow>
          validate_rows fp rows
            (users_data, total_records + 1, invalid_records + 1,
             errors @ [''Row '' @ str_nat (total_records + 1) @ '': Invalid data'']))"

text \<open>
  \<^verbatim>\<open>process_csv_file\<close> returns the tuple (total, processed, failed, errors) and the
  store, or raises (\<open>Inl\<close>, with the text of the exception): when the object cannot be
  fetched, when the reader raises, and when the scope of the batch insert raises.
\<close>

definition process_csv_file :: "env \<Rightarrow> string \<Rightarrow> string \<Rightarrow> db_state \<Rightarrow> string + ((nat \<times> nat \<times> nat \<times> string list) \<times> db_state)" where
  "process_csv_file ev bucket key d =
     (case get_object ev bucket key of
        Inl e \<Rightarrow> Inl e
      | Inr csv_content \<Rightarrow>
          (case csv_reader ev csv_content of
             Inl e \<Rightarrow> Inl e
           | Inr recs \<Rightarrow>
               (case validate_rows (float_of_str ev) (DictReader recs) ([], 0, 0, []) of
                  (users_data, total_records, invalid_records, errors) \<Rightarrow>
                    if users_data \<noteq> [] then
                      (case insert_users_batch ev users_data d of
                         Inl e \<Rightarrow> Inl e
                       | Inr ((success_count, failed_count, db_errors), d') \<Rightarrow>
                           Inr ((total_records, success_count, invalid_records + failed_count,
                                 errors @ db_errors), d'))
                    else Inr ((total_records, 0, total_records, errors), d))))"

text \<open>
  \<^verbatim>\<open>trigger_matching_workflow\<close> returns nothing; what it did is the notification: no
  request without a configured URL, else one POST, whose status code or exception is
  logged and dropped.
\<close>

definition trigger_matching_workflow :: "env \<Rightarrow> string \<Rightarrow> string \<Rightarrow> notification" where
  "trigger_matching_workflow ev bucket key =
     (case webhook_url ev of
        None \<Rightarrow> Skipped
      | Some url \<Rightarrow>
          if url = [] then Skipped
          else
            (let payload = [(''event'', ''csv_processed''), (''bucket'', bucket),
                            (''key'', key), (''timestamp'', ''{}'')]
             in Requested url payload (requests_post ev url payload)))"

datatype body = Processed nat nat nat nat | Failed string

datatype response = Response nat body

definition basename :: "string \<Rightarrow> string" where
  "basename p = rev (takeWhile (\<lambda>c. c \<noteq> CHR ''/'') (rev p))"

fun join :: "string \<Rightarrow> string list \<Rightarrow> string" where
  "join sep [] = []"
| "join sep [x] = x"
| "join sep (x # y # ys) = x @ sep @ join sep (y # ys)"

text \<open>
  The inner \<^verbatim>\<open>except\<close> clause of \<^verbatim>\<open>handler\<close>: the upload is marked failed with the text
  of the exception, which is raised again and answered by the outer clause with status
  code 500. When the update raises too, its exception is the one answered.
\<close>

definition handler_except :: "env \<Rightarrow> nat \<Rightarrow> string \<Rightarrow> db_state \<Rightarrow> response \<times> db_state \<times> notification list" where
  "handler_except ev upload_id e d =
     (case update_csv_upload_status ev upload_id ''failed'' None None None (Some e) d of
        Inl e' \<Rightarrow> (Response 500 (Failed e'), d, [])
      | Inr (_, d') \<Rightarrow> (Response 500 (Failed e), d', []))"

text \<open>
  \<^verbatim>\<open>handler\<close>: the event is the list of its records, each the bucket name and the
  object key. The result is the response, the store, and the notifications sent.
\<close>

definition handler :: "env \<Rightarrow> (string \<times> string) list \<Rightarrow> db_state \<Rightarrow> response \<times> db_state \<times> notification list" where
  "handler ev event d =
     (case event of
        [] \<Rightarrow> (Response 500 (Failed ''list index out of range''), d, [])
      | (bucket, key) # _ \<Rightarrow>
          (case create_csv_upload_record ev (basename key) key d of
             Inl e \<Rightarrow> (Response 500 (Failed e), d, [])
           | Inr (upload_id, d1) \<Rightarrow>
               (case process_csv_file ev bucket key d1 of
                  Inl e \<Rightarrow> handler_except ev upload_id e d1
                | Inr ((total_records, processed_records, failed_records, errors), d2) \<Rightarrow>
                    (case update_csv_upload_status ev upload_id ''completed''
                            (Some total_records) (Some processed_records) (Some failed_records)
                            (if errors \<noteq> [] then Some (join ''; '' (take 10 errors)) else None) d2 of
                       Inl e \<Rightarrow> handler_except ev upload_id e d2
                     | Inr (_, d3) \<Rightarrow>
                         (Response 200
                            (Processed upload_id total_records processed_records failed_records),
                          d3, [trigger_matching_workflow ev bucket key])))))"

section \<open>process\_csv: the second writer of the users table\<close>

text \<open>
  The database section of \<^verbatim>\<open>process_csv.lambda_handler\<close>: one connection, one
  statement per row inside a \<^verbatim>\<open>try\<close>, one commit. The parameters of the statement are
  built before it is sent, so an exception of \<^verbatim>\<open>float\<close> or \<^verbatim>\<open>int\<close> skips the row
  without touching the transaction.
\<close>

fun py_text :: "pyval \<Rightarrow> string option" where
  "py_text (PyStr s) = Some s"
| "py_text PyNone = None"
| "py_text (PyInt n) = Some (str_int n)"

definition legacy_params :: "env \<Rightarrow> csv_row \<Rightarrow> exn + users_row" where
  "legacy_params ev row =
     (case py_float (float_of_str ev) (row_get row ''monthly_income'' (PyInt 0)) of
        Inl e \<Rightarrow> Inl e
      | Inr mi \<Rightarrow>
          (case py_int (row_get row ''credit_score'' (PyInt 0)) of
             Inl e \<Rightarrow> Inl e
           | Inr cs \<Rightarrow>
               (case py_int (row_get row ''age'' (PyInt 0)) of
                  Inl e \<Rightarrow> Inl e
                | Inr ag \<Rightarrow>
                    Inr \<lparr>col_user_id = py_text (row_get row ''user_id'' (PyStr [])),
                         col_name = py_text (row_get row ''name'' (PyStr [])),
                         col_email = py_text (row_get row ''email'' (PyStr [])),
                         col_monthly_income = mi, col_credit_score = cs,
                         col_employment_status =
                           py_text (row_get row ''employment_status'' (PyStr [])),
                         col_age = ag,
                         created_at = current_timestamp ev,
                         updated_at = current_timestamp ev\<rparr>)))"

text \<open>\<^verbatim>\<open>INSERT ... ON CONFLICT (email) DO NOTHING\<close>, with the row count of the cursor.\<close>

definition insert_on_conflict_nothing :: "users_row \<Rightarrow> users_row list \<Rightarrow> nat \<times> users_row list" where
  "insert_on_conflict_nothing new tbl =
     (if list_ex (conflicts new) tbl then (0, tbl) else (1, tbl @ [new]))"

fun legacy_loop :: "env \<Rightarrow> csv_row list \<Rightarrow> (nat \<times> nat) \<times> tx \<Rightarrow> (nat \<times> nat) \<times> tx" where
  "legacy_loop ev [] acc = acc"
| "legacy_loop ev (row # rows) ((users_inserted, users_skipped), t) =
     (case legacy_params ev row of
        Inl e \<Rightarrow> legacy_loop ev rows ((users_inserted, users_skipped + 1), t)
      | Inr new \<Rightarrow>
          (case cursor_execute (legacy_execute_outcome ev new)
                  (\<lambda>d. case insert_on_conflict_nothing new (users d) of
                          (rowcount, tbl) \<Rightarrow> (rowcount, d\<lparr>users := tbl\<rparr>)) t of
             (Inr rowcount, t') \<Rightarrow>
               if rowcount > 0 then legacy_loop ev rows ((users_inserted + 1, users_skipped), t')
               else legacy_loop ev rows ((users_inserted, users_skipped + 1), t')
           | (Inl e, t') \<Rightarrow> legacy_loop ev rows ((users_inserted, users_skipped + 1), t')))"

definition lambda_handler_insert :: "env \<Rightarrow> csv_row list \<Rightarrow> db_state \<Rightarrow> string + ((nat \<times> nat) \<times> db_state)" where
  "lambda_handler_insert ev rows d =
     get_db_cursor (db_fault ev LegacyInsert) (\<lambda>t. legacy_loop ev rows ((0, 0), t)) d"

section \<open>The vocabulary of the specification\<close>

text \<open>
  A field parses as an integer of a closed range when the row has it and \<^verbatim>\<open>int\<close>
  converts it to a number of the range; the trimmed email has an at sign when the row
  has an email string whose trimmed text holds the character.
\<close>

definition parses_in_range :: "csv_row \<Rightarrow> string \<Rightarrow> int \<Rightarrow> int \<Rightarrow> bool" where
  "parses_in_range row k lo hi =
     (case row k of
        Some v \<Rightarrow> (case py_int v of Inr n \<Rightarrow> lo \<le> n \<and> n \<le> hi | Inl e \<Rightarrow> False)
      | None \<Rightarrow> False)"

definition trimmed_email_has_at :: "csv_row \<Rightarrow> bool" where
  "trimmed_email_has_at row =
     (case row ''email'' of Some (PyStr s) \<Rightarrow> CHR ''@'' \<in> set (strip s) | _ \<Rightarrow> False)"

definition accepted_users :: "(string \<Rightarrow> pyfloat option) \<Rightarrow> csv_row list \<Rightarrow> user list" where
  "accepted_users fp rows = List.map_filter (validate_user_data fp) rows"

definition rejected :: "(string \<Rightarrow> pyfloat option) \<Rightarrow> csv_row \<Rightarrow> bool" where
  "rejected fp row = (validate_user_data fp row = None)"

definition rejection_messages :: "(string \<Rightarrow> pyfloat option) \<Rightarrow> nat \<Rightarrow> csv_row list \<Rightarrow> string list" where
  "rejection_messages fp n rows =
     map (\<lambda>i. ''Row '' @ str_nat (n + i + 1) @ '': Invalid data'')
       (filter (\<lambda>i. rejected fp (rows ! i)) [0..<length rows])"

definition run_input :: "env \<Rightarrow> (string \<times> string) list \<Rightarrow> user list" where
  "run_input ev event =
     (case event of
        [] \<Rightarrow> []
      | (bucket, key) # rest \<Rightarrow>
          (case get_object ev bucket key of
             Inl e \<Rightarrow> []
           | Inr content \<Rightarrow>
               (case csv_reader ev content of
                  Inl e \<Rightarrow> []
                | Inr recs \<Rightarrow> accepted_users (float_of_str ev) (DictReader recs))))"

definition no_counts :: "csv_uploads_row \<Rightarrow> bool" where
  "no_counts r = (up_total_records r = None \<and> up_processed_records r = None \<and> up_failed_records r = None)"

definition status_code :: "response \<Rightarrow> nat" where
  "status_code r = (case r of Response code b \<Rightarrow> code)"

definition forget_updated :: "users_row \<Rightarrow> users_row" where
  "forget_updated r = r\<lparr>updated_at := 0\<rparr>"

definition stored_as :: "users_row \<Rightarrow> user \<Rightarrow> bool" where
  "stored_as r u =
     (col_email r = Some (email u) \<and> col_monthly_income r = monthly_income u
      \<and> col_credit_score r = credit_score u
      \<and> col_employment_status r = Some (employment_status u) \<and> col_age r = age u)"

definition last_with_email :: "user list \<Rightarrow> string option \<Rightarrow> user option" where
  "last_with_email us e = find (\<lambda>u. Some (email u) = e) (rev us)"

definition emails :: "users_row list \<Rightarrow> string list" where
  "emails tbl = List.map_filter col_email tbl"

section \<open>Closed forms of the store operations\<close>

text \<open>
  The effect of one accepted statement of \<^verbatim>\<open>insert_users_batch\<close> on the users table, of
  the whole batch on the committed table, and of the creation of an upload record.
  The theorems below relate them to the operations.
\<close>

fun is_server_error :: "stmt_outcome \<Rightarrow> bool" where
  "is_server_error (ServerError e) = True"
| "is_server_error _ = False"

definition upsert :: "env \<Rightarrow> users_row list \<Rightarrow> user \<Rightarrow> users_row list" where
  "upsert ev tbl u = insert_on_conflict_update (proposed_row (current_timestamp ev) u) tbl"

definition overwrite :: "nat \<Rightarrow> users_row \<Rightarrow> user \<Rightarrow> users_row" where
  "overwrite now r u =
     (if col_email r = Some (email u) then
        r\<lparr>col_monthly_income := monthly_income u, col_credit_score := credit_score u,
          col_employment_status := Some (employment_status u), col_age := age u,
          updated_at := now\<rparr>
      else r)"

definition batch_users :: "env \<Rightarrow> user list \<Rightarrow> users_row list \<Rightarrow> users_row list" where
  "batch_users ev us tbl =
     (if list_ex (\<lambda>u. is_server_error (execute_outcome ev u)) us then tbl
      else foldl (upsert ev) tbl (filter (\<lambda>u. execute_outcome ev u = Accepted) us))"

definition batch_applied :: "env \<Rightarrow> (string \<times> string) list \<Rightarrow> bool" where
  "batch_applied ev event =
     (event \<noteq> [] \<and> db_fault ev CreateUpload = None \<and> run_input ev event \<noteq> []
      \<and> db_fault ev InsertBatch = None)"

definition pending_row :: "string \<Rightarrow> string \<Rightarrow> csv_uploads_row" where
  "pending_row fname key =
     \<lparr>up_file_name = fname, up_s3_key = key, up_status = ''pending'',
      up_total_records = None, up_processed_records = None, up_failed_records = None,
      up_error_message = None, up_processed_at = None\<rparr>"

definition created :: "string \<Rightarrow> db_state \<Rightarrow> db_state" where
  "created key d =
     d\<lparr>csv_uploads := (csv_uploads d)(upload_id_seq d \<mapsto> pending_row (basename key) key),
       upload_id_seq := upload_id_seq d + 1\<rparr>"

section \<open>Example data\<close>

text \<open>
  A reader for payloads without quotes and carriage returns (one record per line,
  fields split at commas, the empty record for an empty line), and a reading of floats
  for integer literals. They stand in for \<^verbatim>\<open>csv.reader\<close> and \<^verbatim>\<open>float\<close> in the examples.
\<close>

fun split_on :: "char \<Rightarrow> string \<Rightarrow> string list" where
  "split_on sep [] = [[]]"
| "split_on sep (c # cs) =
     (if c = sep then [] # split_on sep cs
      else (case split_on sep cs of [] \<Rightarrow> [[c]] | w # ws \<Rightarrow> (c # w) # ws))"

definition splitlines :: "string \<Rightarrow> string list" where
  "splitlines s = (let ls = split_on (CHR 0x0A) s in if last ls = [] then butlast ls else ls)"

definition plain_reader :: "string \<Rightarrow> string + string list list" where
  "plain_reader s =
     Inr (map (\<lambda>l. if l = [] then [] else split_on (CHR '','') l) (splitlines s))"

definition plain_float :: "string \<Rightarrow> pyfloat option" where
  "plain_float s = (case int_of_str s of None \<Rightarrow> None | Some n \<Rightarrow> Some (Finite (of_int n)))"

definition example_row :: "string \<Rightarrow> string \<Rightarrow> string \<Rightarrow> csv_row" where
  "example_row em cs ag =
     map_of [(''email'', PyStr em), (''monthly_income'', PyStr ''5000''),
             (''credit_score'', PyStr cs), (''employment_status'', PyStr ''employed''),
             (''age'', PyStr ag)]"

definition row_without :: "string \<Rightarrow> csv_row" where
  "row_without k = (example_row ''a@x.org'' ''700'' ''30'')(k := None)"

definition second_example_row :: csv_row where
  "second_example_row =
     map_of [(''age'', PyStr ''40''), (''employment_status'', PyStr ''none''),
             (''credit_score'', PyStr ''200''), (''monthly_income'', PyStr ''100''),
             (''email'', PyStr ''b@x.org'')]"

definition example_user :: "string \<Rightarrow> user" where
  "example_user e =
     \<lparr>email = e, monthly_income = Finite 5000, credit_score = 700,
      employment_status = ''employed'', age = 30\<rparr>"

definition example_payload :: string where
  "example_payload =
     ''email,monthly_income,credit_score,employment_status,age'' @ [CHR 0x0A] @
     ''a@x.org,5000,700,employed,30'' @ [CHR 0x0A] @
     ''b@x.org,100,200,none,40'' @ [CHR 0x0A] @
     ''c@x.org,100,650,none,40'' @ [CHR 0x0A]"

definition example_env :: env where
  "example_env =
     \<lparr>get_object = (\<lambda>b k. if k = ''uploads/a.csv'' then Inr example_payload
                          else if k = ''uploads/empty.csv'' then Inr (''email,age'' @ [CHR 0x0A])
                          else Inl ''NoSuchKey''),
      csv_reader = plain_reader,
      float_of_str = plain_float,
      db_fault = (\<lambda>op. None),
      execute_outcome = (\<lambda>u. Accepted),
      legacy_execute_outcome = (\<lambda>r. Accepted),
      webhook_url = Some ''http://n8n.example/webhook'',
      requests_post = (\<lambda>url payload. Inl ''connection refused''),
      current_timestamp = 7\<rparr>"

definition strict_env :: env where
  "strict_env =
     example_env\<lparr>execute_outcome :=
       (\<lambda>u. if email u = ''c@x.org''
            then ServerError (''value too long for type character varying(50)'' @ [CHR 0x0A])
            else Accepted)\<rparr>"

definition outage_env :: env where
  "outage_env =
     example_env\<lparr>db_fault := (\<lambda>op. if op = InsertBatch then Some ''connection refused'' else None)\<rparr>"

definition example_db :: db_state where
  "example_db =
     \<lparr>users = [\<lparr>col_user_id = None, col_name = None, col_email = Some ''a@x.org'',
                 col_monthly_income = Finite 1000, col_credit_score = 600,
                 col_employment_status = Some ''student'', col_age = 29,
                 created_at = 1, updated_at = 1\<rparr>],
      csv_uploads = Map.empty, upload_id_seq = 1\<rparr>"

definition example_event :: "(string \<times> string) list" where
  "example_event = [(''ingest-bucket'', ''uploads/a.csv'')]"

definition example_notification :: notification where
  "example_notification =
     Requested ''http://n8n.example/webhook''
       [(''event'', ''csv_processed''), (''bucket'', ''ingest-bucket''),
        (''key'', ''uploads/a.csv''), (''timestamp'', ''{}'')]
       (Inl ''connection refused'')"

definition example_upload :: "nat \<Rightarrow> csv_uploads_row" where
  "example_upload now =
     \<lparr>up_file_name = ''a.csv'', up_s3_key = ''uploads/a.csv'', up_status = ''completed'',
      up_total_records = Some 3, up_processed_records = Some 2, up_failed_records = Some 1,
      up_error_message = Some ''Row 2: Invalid data'', up_processed_at = Some now\<rparr>"

definition example_users_after :: "nat \<Rightarrow> users_row list" where
  "example_users_after now =
     [\<lparr>col_user_id = None, col_name = None, col_email = Some ''a@x.org'',
       col_monthly_income = Finite 5000, col_credit_score = 700,
       col_employment_status = Some ''employed'', col_age = 30,
       created_at = 1, updated_at = now\<rparr>,
      \<lparr>col_user_id = None, col_name = None, col_email = Some ''c@x.org'',
       col_monthly_income = Finite 100, col_credit_score = 650,
       col_employment_status = Some ''none'', col_age = 40,
       created_at = 7, updated_at = now\<rparr>]"

definition example_db_1 :: db_state where
  "example_db_1 =
     \<lparr>users = example_users_after 7, csv_uploads = [1 \<mapsto> example_upload 7], upload_id_seq = 2\<rparr>"

definition example_db_2 :: db_state where
  "example_db_2 =
     \<lparr>users = example_users_after 9,
      csv_uploads = [1 \<mapsto> example_upload 7, 2 \<mapsto> example_upload 9], upload_id_seq = 3\<rparr>"

text \<open>
  The same run when the store refuses the statement for c@x.org: the upload it records,
  and the store after one run and after two.
\<close>

definition strict_upload :: "nat \<Rightarrow> csv_uploads_row" where
  "strict_upload now =
     \<lparr>up_file_name = ''a.csv'', up_s3_key = ''uploads/a.csv'', up_status = ''completed'',
      up_total_records = Some 3, up_processed_records = Some 1, up_failed_records = Some 2,
      up_error_message =
        Some (''Row 2: Invalid data; Failed to insert user c@x.org: value too long for type character varying(50)''
                @ [CHR 0x0A]),
      up_processed_at = Some now\<rparr>"

definition strict_db_1 :: db_state where
  "strict_db_1 =
     \<lparr>users = users example_db, csv_uploads = [1 \<mapsto> strict_upload 7], upload_id_seq = 2\<rparr>"

definition strict_db_2 :: db_state where
  "strict_db_2 =
     \<lparr>users = users example_db,
      csv_uploads = [1 \<mapsto> strict_upload 7, 2 \<mapsto> strict_upload 9], upload_id_seq = 3\<rparr>"

text \<open>
  An object store whose exception has no text, as \<^verbatim>\<open>str(MemoryError())\<close> when the body of
  the object does not fit in memory.
\<close>

definition no_text_env :: env where
  "no_text_env = example_env\<lparr>get_object := (\<lambda>b k. Inl [])\<rparr>"

section \<open>The validator\<close>

lemmas validator_eval = parses_in_range_def trimmed_email_has_at_def example_row_def
  int_of_str_def int_space_def int_max_str_digits_def strip_def isspace_def isdigit_def
  digit_val_def plain_float_def
  validate_user_data_def validate_user_data_try_def row_get_def

lemma strip_Nil: "strip [] = []"
  by (simp add: strip_def)

text \<open>
  \<^verbatim>\<open>int\<close> on some strings: white space at the ends is skipped, but not the separators
  U+001C to U+001F, which \<^verbatim>\<open>str.strip\<close> removes; and a literal of more than 4300 digits is
  refused.
\<close>

lemma int_of_str_examples:
  "int_of_str '' 30 '' = Some 30"
  "int_of_str (CHR 0x1C # ''30'') = None"
  "int_of_str (''30'' @ [CHR 0x1F]) = None"
  "int_of_str (CHR 0xA0 # ''-1_000'' @ [CHR 0x0A]) = Some (- 1000)"
  "int_of_str ''1__0'' = None"
  "int_of_str ''+'' = None"
  by (simp_all add: int_of_str_def int_space_def int_max_str_digits_def isdigit_def digit_val_def)

lemma isdigit_not_space: "isdigit c \<Longrightarrow> \<not> int_space c \<and> c \<noteq> CHR ''-'' \<and> c \<noteq> CHR ''+''"
  by (auto simp: isdigit_def int_space_def)

lemma int_of_str_digit_limit:
  assumes "\<forall>c\<in>set s. isdigit c" and "int_max_str_digits < length s"
  shows "int_of_str s = None"
proof -
  from assms(2) have ne: "s \<noteq> []" by auto
  with assms(1) have "isdigit (hd s)" "isdigit (last s)" by simp_all
  then have h: "\<not> int_space (hd s)" "\<not> int_space (last s)" "hd s \<noteq> CHR ''-''" "hd s \<noteq> CHR ''+''"
    by (simp_all add: isdigit_not_space)
  have "dropWhile int_space s = s" using h(1) by (simp add: dropWhile_eq_self_iff)
  moreover have "dropWhile int_space (rev s) = rev s"
    using h(2) ne by (simp add: dropWhile_eq_self_iff hd_rev)
  moreover have "filter isdigit s = s" using assms(1) by simp
  ultimately show ?thesis
    using h(3,4) assms(2) by (simp add: int_of_str_def Let_def)
qed

lemma validate_Some_iff:
  "validate_user_data fp row = Some u \<longleftrightarrow> validate_user_data_try fp row = Inr u"
  by (simp add: validate_user_data_def split: sum.splits)

lemma py_int_range:
  assumes "py_int (row_get row k (PyInt 0)) = Inr n" and "lo \<le> n" and "n \<le> hi" and "0 < lo"
  shows "parses_in_range row k lo hi"
proof (cases "row k")
  case None
  with assms show ?thesis by (simp add: row_get_def)
next
  case (Some v)
  with assms show ?thesis
    by (simp add: row_get_def parses_in_range_def)
qed

lemma py_strip_email:
  assumes "py_strip (row_get row ''email'' (PyStr [])) = Inr em" and "CHR ''@'' \<in> set em"
  shows "trimmed_email_has_at row"
proof (cases "row ''email''")
  case None
  with assms show ?thesis by (simp add: row_get_def strip_Nil)
next
  case (Some v)
  with assms show ?thesis
    by (cases v) (auto simp: row_get_def trimmed_email_has_at_def)
qed

lemma validate_try_accepts:
  assumes "validate_user_data_try fp row = Inr u"
  shows "trimmed_email_has_at row \<and> parses_in_range row ''credit_score'' 300 850
         \<and> parses_in_range row ''age'' 18 100"
proof -
  from assms obtain em mi cs ag where
    em: "py_strip (row_get row ''email'' (PyStr [])) = Inr em" "CHR ''@'' \<in> set em"
    and cs: "py_int (row_get row ''credit_score'' (PyInt 0)) = Inr cs" "300 \<le> cs" "cs \<le> 850"
    and ag: "py_int (row_get row ''age'' (PyInt 0)) = Inr ag" "18 \<le> ag" "ag \<le> 100"
    by (auto simp: validate_user_data_try_def split: sum.splits if_splits)
  show ?thesis
    using py_strip_email[OF em] py_int_range[OF cs] py_int_range[OF ag] by simp
qed

lemma validate_rejects:
  assumes "\<not> parses_in_range row ''credit_score'' 300 850
           \<or> \<not> parses_in_range row ''age'' 18 100
           \<or> \<not> trimmed_email_has_at row"
  shows "validate_user_data fp row = None"
proof (cases "validate_user_data fp row")
  case None
  then show ?thesis .
next
  case (Some u)
  then have "validate_user_data_try fp row = Inr u" by (simp add: validate_Some_iff)
  from validate_try_accepts[OF this] assms show ?thesis by blast
qed

lemma validate_accepts_example:
  "validate_user_data plain_float (example_row '' a@x.org'' ''700'' ''30'') =
     Some \<lparr>email = ''a@x.org'', monthly_income = Finite 5000, credit_score = 700,
           employment_status = ''employed'', age = 30\<rparr>"
  by (simp add: validator_eval)

section \<open>The batch insert and its transaction\<close>

lemma execute_upsert_cases:
  "execute_upsert ev u t =
     (case execute_outcome ev u of
        ClientError e \<Rightarrow> (Inl e, t)
      | ServerError e \<Rightarrow> if aborted t then (Inl in_failed_transaction, t) else (Inl e, t\<lparr>aborted := True\<rparr>)
      | Accepted \<Rightarrow> if aborted t then (Inl in_failed_transaction, t)
                    else (Inr (), t\<lparr>work := (work t)\<lparr>users := upsert ev (users (work t)) u\<rparr>\<rparr>))"
  by (simp add: execute_upsert_def cursor_execute_def upsert_def Let_def split: stmt_outcome.splits)

lemma loop_counts:
  "insert_users_loop ev us ((s, f, errs), t) = ((s', f', errs'), t') \<Longrightarrow>
     s' + f' = s + f + length us \<and> s \<le> s' \<and> f \<le> f' \<and> length errs' + f = length errs + f'"
proof (induction us arbitrary: s f errs t)
  case Nil
  then show ?case by simp
next
  case (Cons u us)
  obtain r t1 where ex: "execute_upsert ev u t = (r, t1)" by (cases "execute_upsert ev u t")
  show ?case
  proof (cases r)
    case (Inl e)
    with Cons.prems ex have
      "insert_users_loop ev us ((s, f + 1, errs @ [''Failed to insert user '' @ email u @ '': '' @ e]), t1)
         = ((s', f', errs'), t')" by simp
    from Cons.IH[OF this] show ?thesis by auto
  next
    case (Inr x)
    with Cons.prems ex have "insert_users_loop ev us ((s + 1, f, errs), t1) = ((s', f', errs'), t')"
      by simp
    from Cons.IH[OF this] show ?thesis by auto
  qed
qed

lemma loop_tx:
  "insert_users_loop ev us (acc, t) = (acc', t') \<Longrightarrow>
     aborted t' = (aborted t \<or> list_ex (\<lambda>u. is_server_error (execute_outcome ev u)) us)
     \<and> (\<not> aborted t' \<longrightarrow>
          t' = t\<lparr>work := (work t)\<lparr>users :=
                 foldl (upsert ev) (users (work t)) (filter (\<lambda>u. execute_outcome ev u = Accepted) us)\<rparr>\<rparr>)"
proof (induction us arbitrary: acc t)
  case Nil
  then show ?case by simp
next
  case (Cons u us)
  obtain s f errs where acc: "acc = (s, f, errs)" by (cases acc)
  show ?case
  proof (cases "execute_outcome ev u")
    case Accepted
    show ?thesis
    proof (cases "aborted t")
      case True
      with Accepted Cons.prems acc have
        "insert_users_loop ev us ((s, f + 1, errs @ [''Failed to insert user '' @ email u @ '': '' @ in_failed_transaction]), t) = (acc', t')"
        by (simp add: execute_upsert_cases)
      from Cons.IH[OF this] True show ?thesis by simp
    next
      case False
      with Accepted Cons.prems acc have
        "insert_users_loop ev us ((s + 1, f, errs), t\<lparr>work := (work t)\<lparr>users := upsert ev (users (work t)) u\<rparr>\<rparr>) = (acc', t')"
        by (simp add: execute_upsert_cases)
      from Cons.IH[OF this] False Accepted show ?thesis by simp
    qed
  next
    case (ClientError e)
    with Cons.prems acc have
      "insert_users_loop ev us ((s, f + 1, errs @ [''Failed to insert user '' @ email u @ '': '' @ e]), t) = (acc', t')"
      by (simp add: execute_upsert_cases)
    from Cons.IH[OF this] ClientError show ?thesis by simp
  next
    case (ServerError e)
    show ?thesis
    proof (cases "aborted t")
      case True
      with ServerError Cons.prems acc have
        "insert_users_loop ev us ((s, f + 1, errs @ [''Failed to insert user '' @ email u @ '': '' @ in_failed_transaction]), t) = (acc', t')"
        by (simp add: execute_upsert_cases)
      from Cons.IH[OF this] True show ?thesis by simp
    next
      case False
      with ServerError Cons.prems acc have
        "insert_users_loop ev us ((s, f + 1, errs @ [''Failed to insert user '' @ email u @ '': '' @ e]), t\<lparr>aborted := True\<rparr>) = (acc', t')"
        by (simp add: execute_upsert_cases)
      from Cons.IH[OF this] ServerError show ?thesis by simp
    qed
  qed
qed

lemma insert_users_batch_fault:
  "db_fault ev InsertBatch = Some e \<Longrightarrow> insert_users_batch ev us d = Inl e"
  by (simp add: insert_users_batch_def get_db_cursor_def)

lemma insert_users_batch_ok:
  assumes "db_fault ev InsertBatch = None"
  shows "\<exists>s f errs. insert_users_batch ev us d = Inr ((s, f, errs), d\<lparr>users := batch_users ev us (users d)\<rparr>)
           \<and> s + f = length us \<and> length errs = f"
proof -
  obtain s f errs t' where
    loop: "insert_users_loop ev us ((0, 0, []), \<lparr>work = d, aborted = False\<rparr>) = ((s, f, errs), t')"
    by (metis prod.exhaust)
  from loop_counts[OF loop] have c: "s + f = length us" "length errs = f" by simp_all
  from loop_tx[OF loop] have
    ab: "aborted t' = list_ex (\<lambda>u. is_server_error (execute_outcome ev u)) us"
    and wk: "\<not> aborted t' \<Longrightarrow> work t' = d\<lparr>users := foldl (upsert ev) (users d) (filter (\<lambda>u. execute_outcome ev u = Accepted) us)\<rparr>"
    by auto
  have "(if aborted t' then d else work t') = d\<lparr>users := batch_users ev us (users d)\<rparr>"
    using ab wk by (simp add: batch_users_def)
  with loop c assms show ?thesis
    by (simp add: insert_users_batch_def get_db_cursor_def)
qed

section \<open>The validation loop and process\_csv\_file\<close>

lemma upt_0_Suc: "[0..<Suc n] = 0 # map Suc [0..<n]"
  by (simp add: upt_conv_Cons map_Suc_upt del: upt_Suc)

lemma rejection_messages_Cons:
  "rejection_messages fp n (row # rows) =
     (if rejected fp row then [''Row '' @ str_nat (n + 1) @ '': Invalid data''] else [])
       @ rejection_messages fp (n + 1) rows"
proof -
  have "filter (\<lambda>i. rejected fp ((row # rows) ! i)) [0..<length (row # rows)] =
        (if rejected fp row then [0] else []) @ map Suc (filter (\<lambda>i. rejected fp (rows ! i)) [0..<length rows])"
    by (simp add: upt_0_Suc filter_map comp_def del: upt_Suc)
  then show ?thesis
    by (simp add: rejection_messages_def comp_def)
qed

lemma rejection_messages_Nil: "rejection_messages fp n [] = []"
  by (simp add: rejection_messages_def)

lemma accepted_users_Cons:
  "accepted_users fp (row # rows) =
     (case validate_user_data fp row of None \<Rightarrow> accepted_users fp rows
      | Some u \<Rightarrow> u # accepted_users fp rows)"
  by (simp add: accepted_users_def map_filter_simps split: option.splits)

lemma accepted_users_Nil: "accepted_users fp [] = []"
  by (simp add: accepted_users_def map_filter_simps)

lemma accepted_users_append:
  "accepted_users fp (xs @ ys) = accepted_users fp xs @ accepted_users fp ys"
  by (induction xs) (simp_all add: accepted_users_Nil accepted_users_Cons split: option.splits)

lemma accepted_users_drop_rejected:
  assumes "i < length rows" and "rejected fp (rows ! i)"
  shows "accepted_users fp rows = accepted_users fp (take i rows @ drop (Suc i) rows)"
proof -
  have "rows = take i rows @ rows ! i # drop (Suc i) rows"
    using assms(1) by (rule id_take_nth_drop)
  then have "accepted_users fp rows
      = accepted_users fp (take i rows) @ accepted_users fp (rows ! i # drop (Suc i) rows)"
    by (metis accepted_users_append)
  also have "accepted_users fp (rows ! i # drop (Suc i) rows) = accepted_users fp (drop (Suc i) rows)"
    using assms(2) by (simp add: accepted_users_Cons rejected_def)
  finally show ?thesis by (simp add: accepted_users_append)
qed

lemma rejection_message_recorded:
  assumes "i < length rows" and "rejected fp (rows ! i)"
  shows "''Row '' @ str_nat (i + 1) @ '': Invalid data'' \<in> set (rejection_messages fp 0 rows)"
proof -
  from assms have "i \<in> set (filter (\<lambda>i. rejected fp (rows ! i)) [0..<length rows])" by simp
  then show ?thesis unfolding rejection_messages_def by force
qed

lemma rejection_messages_length:
  "length (rejection_messages fp n rows) = length (filter (rejected fp) rows)"
  by (induction rows arbitrary: n) (simp_all add: rejection_messages_Nil rejection_messages_Cons)

lemma rejection_messages_append:
  "rejection_messages fp n (xs @ ys) =
     rejection_messages fp n xs @ rejection_messages fp (n + length xs) ys"
  by (induction xs arbitrary: n) (simp_all add: rejection_messages_Nil rejection_messages_Cons)

text \<open>The message of a rejected row comes after those of the rejected rows before it.\<close>

lemma rejection_message_position:
  assumes "i < length rows" and "rejected fp (rows ! i)"
  shows "length (filter (rejected fp) (take i rows)) < length (rejection_messages fp 0 rows)
     \<and> rejection_messages fp 0 rows ! length (filter (rejected fp) (take i rows)) =
         ''Row '' @ str_nat (i + 1) @ '': Invalid data''"
proof -
  have rows: "rows = take i rows @ rows ! i # drop (Suc i) rows"
    using assms(1) by (rule id_take_nth_drop)
  have len: "length (take i rows) = i" using assms(1) by simp
  have "rejection_messages fp 0 rows =
      rejection_messages fp 0 (take i rows)
        @ (''Row '' @ str_nat (i + 1) @ '': Invalid data'')
        # rejection_messages fp (i + 1) (drop (Suc i) rows)"
    using assms(1)
    by (subst rows) (simp add: rejection_messages_append rejection_messages_Cons assms(2) len
          min_absorb2 del: append_take_drop_id)
  then show ?thesis
    by (simp add: rejection_messages_length nth_append)
qed

lemma validate_rows_closed:
  "validate_rows fp rows (us, n, k, errs) =
     (us @ accepted_users fp rows, n + length rows,
      k + length (filter (rejected fp) rows), errs @ rejection_messages fp n rows)"
proof (induction rows arbitrary: us n k errs)
  case Nil
  then show ?case by (simp add: accepted_users_Nil rejection_messages_Nil)
next
  case (Cons row rows)
  show ?case
  proof (cases "validate_user_data fp row")
    case None
    then show ?thesis
      by (simp add: Cons.IH accepted_users_Cons rejection_messages_Cons rejected_def)
  next
    case (Some u)
    then show ?thesis
      by (simp add: Cons.IH accepted_users_Cons rejection_messages_Cons rejected_def)
  qed
qed

lemma accepted_plus_rejected:
  "length (accepted_users fp rows) + length (filter (rejected fp) rows) = length rows"
  by (induction rows) (auto simp: accepted_users_Nil accepted_users_Cons rejected_def split: option.splits)

lemma process_csv_file_closed:
  assumes "get_object ev bucket key = Inr content" and "csv_reader ev content = Inr recs"
  shows "process_csv_file ev bucket key d =
     (let rows = DictReader recs; us = accepted_users (float_of_str ev) rows;
          msgs = rejection_messages (float_of_str ev) 0 rows
      in if us \<noteq> [] then
           (case insert_users_batch ev us d of
              Inl e \<Rightarrow> Inl e
            | Inr ((s, f, db_errors), d') \<Rightarrow>
                Inr ((length rows, s, length (filter (rejected (float_of_str ev)) rows) + f,
                      msgs @ db_errors), d'))
         else Inr ((length rows, 0, length rows, msgs), d))"
  using assms by (simp add: process_csv_file_def validate_rows_closed Let_def)

text \<open>The error list of a run that returns starts with the rejection messages.\<close>

lemma process_errors_prefix:
  assumes "get_object ev bucket key = Inr content" and "csv_reader ev content = Inr recs"
      and "process_csv_file ev bucket key d = Inr ((t, p, f, errs), d')"
  shows "\<exists>db_errors. errs = rejection_messages (float_of_str ev) 0 (DictReader recs) @ db_errors"
proof (cases "accepted_users (float_of_str ev) (DictReader recs) = []")
  case True
  with process_csv_file_closed[OF assms(1,2), of d] assms(3) show ?thesis
    by (simp add: Let_def)
next
  case False
  with process_csv_file_closed[OF assms(1,2), of d] assms(3) show ?thesis
    by (auto simp: Let_def split: sum.splits)
qed

lemma process_csv_file_fetch_fails:
  "get_object ev bucket key = Inl e \<Longrightarrow> process_csv_file ev bucket key d = Inl e"
  by (simp add: process_csv_file_def)

lemma process_csv_file_reader_fails:
  "get_object ev bucket key = Inr content \<Longrightarrow> csv_reader ev content = Inl e \<Longrightarrow>
     process_csv_file ev bucket key d = Inl e"
  by (simp add: process_csv_file_def)

text \<open>What a successful return of process_csv_file says.\<close>

lemma process_csv_file_Inr:
  assumes "process_csv_file ev bucket key d = Inr ((t, p, f, errs), d')"
  shows "\<exists>content recs. get_object ev bucket key = Inr content \<and> csv_reader ev content = Inr recs
           \<and> t = length (DictReader recs)
           \<and> t = p + f
           \<and> csv_uploads d' = csv_uploads d \<and> upload_id_seq d' = upload_id_seq d
           \<and> (let us = accepted_users (float_of_str ev) (DictReader recs);
                   rej = length (filter (rejected (float_of_str ev)) (DictReader recs))
               in if us = [] then p = 0 \<and> f = t \<and> d' = d
                  else \<exists>s fc db_errors. insert_users_batch ev us d = Inr ((s, fc, db_errors), d')
                         \<and> p = s \<and> f = rej + fc
                         \<and> d' = d\<lparr>users := batch_users ev us (users d)\<rparr>)"
proof -
  from assms obtain content where c: "get_object ev bucket key = Inr content"
    by (cases "get_object ev bucket key") (simp_all add: process_csv_file_def)
  from assms c obtain recs where r: "csv_reader ev content = Inr recs"
    by (cases "csv_reader ev content") (simp_all add: process_csv_file_def)
  let ?rows = "DictReader recs"
  let ?us = "accepted_users (float_of_str ev) ?rows"
  let ?rej = "length (filter (rejected (float_of_str ev)) ?rows)"
  have len: "length ?us + ?rej = length ?rows" by (rule accepted_plus_rejected)
  note closed = process_csv_file_closed[OF c r, of d]
  show ?thesis
  proof (cases "?us = []")
    case True
    with closed assms have "t = length ?rows" "p = 0" "f = t" "d' = d"
      by (simp_all add: Let_def)
    with c r True show ?thesis by (simp add: Let_def)
  next
    case False
    with closed assms have nofault: "db_fault ev InsertBatch = None"
      by (cases "db_fault ev InsertBatch") (simp_all add: Let_def insert_users_batch_fault)
    from insert_users_batch_ok[OF nofault, of ?us d] obtain s fc db_errors where
      b: "insert_users_batch ev ?us d = Inr ((s, fc, db_errors), d\<lparr>users := batch_users ev ?us (users d)\<rparr>)"
      and sf: "s + fc = length ?us" by blast
    with closed assms False have
      eqs: "t = length ?rows" "p = s" "f = ?rej + fc" "d' = d\<lparr>users := batch_users ev ?us (users d)\<rparr>"
      by (simp_all add: Let_def)
    from eqs sf len have "t = p + f" by simp
    with c r False b eqs show ?thesis by (simp add: Let_def)
  qed
qed

section \<open>The lifecycle operations and the handler\<close>

lemma create_fault:
  "db_fault ev CreateUpload = Some e \<Longrightarrow> create_csv_upload_record ev fname key d = Inl e"
  by (simp add: create_csv_upload_record_def get_db_cursor_def)

lemma create_ok:
  "db_fault ev CreateUpload = None \<Longrightarrow>
     create_csv_upload_record ev fname key d =
       Inr (upload_id_seq d,
            d\<lparr>csv_uploads := (csv_uploads d)(upload_id_seq d \<mapsto> pending_row fname key),
              upload_id_seq := upload_id_seq d + 1\<rparr>)"
  by (simp add: create_csv_upload_record_def get_db_cursor_def pending_row_def Let_def)

lemma update_fault:
  "db_fault ev (UpdateStatus st) = Some e \<Longrightarrow>
     update_csv_upload_status ev i st a b c m d = Inl e"
  by (simp add: update_csv_upload_status_def get_db_cursor_def)

lemma update_ok:
  "db_fault ev (UpdateStatus st) = None \<Longrightarrow> csv_uploads d i = Some r \<Longrightarrow>
     update_csv_upload_status ev i st a b c m d =
       Inr ((), d\<lparr>csv_uploads := (csv_uploads d)(i \<mapsto> update_row (current_timestamp ev) st a b c m r)\<rparr>)"
  by (simp add: update_csv_upload_status_def get_db_cursor_def)

lemma update_keeps_users:
  "update_csv_upload_status ev i st a b c m d = Inr (x, d') \<Longrightarrow> users d' = users d"
  by (cases "db_fault ev (UpdateStatus st)")
     (auto simp: update_csv_upload_status_def get_db_cursor_def split: option.splits)

lemma update_row_failed:
  "update_row now ''failed'' None None None (Some e) (pending_row fname key) =
     \<lparr>up_file_name = fname, up_s3_key = key, up_status = ''failed'',
      up_total_records = None, up_processed_records = None, up_failed_records = None,
      up_error_message = Some e, up_processed_at = Some now\<rparr>"
  by (simp add: update_row_def pending_row_def set_if_given_def)

lemma update_row_completed:
  "update_row now ''completed'' (Some t) (Some p) (Some f) m (pending_row fname key) =
     \<lparr>up_file_name = fname, up_s3_key = key, up_status = ''completed'',
      up_total_records = Some t, up_processed_records = Some p, up_failed_records = Some f,
      up_error_message = m, up_processed_at = Some now\<rparr>"
  by (cases m) (simp_all add: update_row_def pending_row_def set_if_given_def)

lemma pending_row_facts:
  "no_counts (pending_row fname key)" "up_status (pending_row fname key) = ''pending''"
  by (simp_all add: pending_row_def no_counts_def)

lemma created_simps:
  "csv_uploads (created key d) (upload_id_seq d) = Some (pending_row (basename key) key)"
  "users (created key d) = users d"
  by (simp_all add: created_def)

lemma handler_except_fault:
  "db_fault ev (UpdateStatus ''failed'') = Some e' \<Longrightarrow>
     handler_except ev i e d = (Response 500 (Failed e'), d, [])"
  by (simp add: handler_except_def update_fault)

lemma handler_except_ok:
  "db_fault ev (UpdateStatus ''failed'') = None \<Longrightarrow> csv_uploads d i = Some r \<Longrightarrow>
     handler_except ev i e d =
       (Response 500 (Failed e),
        d\<lparr>csv_uploads := (csv_uploads d)(i \<mapsto> update_row (current_timestamp ev) ''failed'' None None None (Some e) r)\<rparr>, [])"
  by (simp add: handler_except_def update_ok)

lemma handler_except_row:
  assumes "csv_uploads d i = Some r" and "no_counts r" and "up_status r = ''pending''"
      and "handler_except ev i e d = (resp, d', ns)"
  shows "\<exists>r'. csv_uploads d' i = Some r' \<and> no_counts r'
            \<and> (up_status r' = ''failed'' \<or> up_status r' = ''pending'')"
proof (cases "db_fault ev (UpdateStatus ''failed'')")
  case None
  from handler_except_ok[OF None assms(1), of e] assms(4)
  have "d' = d\<lparr>csv_uploads := (csv_uploads d)(i \<mapsto> update_row (current_timestamp ev) ''failed'' None None None (Some e) r)\<rparr>"
    by simp
  with assms(2) show ?thesis
    by (simp add: update_row_def no_counts_def set_if_given_def)
next
  case (Some e')
  from handler_except_fault[OF Some, of i e d] assms(4) have "d' = d" by simp
  with assms show ?thesis by simp
qed

lemma handler_except_users: "users (fst (snd (handler_except ev i e d))) = users d"
  by (auto simp: handler_except_def split: sum.splits dest: update_keeps_users)

lemma handler_except_silent:
  "snd (snd (handler_except ev i e d)) = [] \<and> status_code (fst (handler_except ev i e d)) = 500"
  by (simp add: handler_except_def status_code_def split: sum.splits prod.splits)

lemma handler_created:
  assumes "db_fault ev CreateUpload = None"
  shows "handler ev ((bucket, key) # rest) d =
     (case process_csv_file ev bucket key (created key d) of
        Inl e \<Rightarrow> handler_except ev (upload_id_seq d) e (created key d)
      | Inr ((t, p, f, errs), d2) \<Rightarrow>
          (case update_csv_upload_status ev (upload_id_seq d) ''completed'' (Some t) (Some p) (Some f)
                  (if errs \<noteq> [] then Some (join ''; '' (take 10 errs)) else None) d2 of
             Inl e \<Rightarrow> handler_except ev (upload_id_seq d) e d2
           | Inr (x, d3) \<Rightarrow>
               (Response 200 (Processed (upload_id_seq d) t p f), d3,
                [trigger_matching_workflow ev bucket key])))"
proof -
  have "create_csv_upload_record ev (basename key) key d = Inr (upload_id_seq d, created key d)"
    using assms by (simp add: create_ok created_def)
  then show ?thesis by (simp add: handler_def)
qed

lemma handler_create_fault:
  "db_fault ev CreateUpload = Some e \<Longrightarrow>
     handler ev ((bucket, key) # rest) d = (Response 500 (Failed e), d, [])"
  by (simp add: handler_def create_fault)

lemma fetch_failure_run:
  assumes "get_object ev bucket key = Inl e"
      and "db_fault ev CreateUpload = None" and "db_fault ev (UpdateStatus ''failed'') = None"
  shows "process_csv_file ev bucket key d0 = Inl e
     \<and> handler ev ((bucket, key) # rest) d =
         (Response 500 (Failed e),
          d\<lparr>csv_uploads := (csv_uploads d)(upload_id_seq d \<mapsto>
               \<lparr>up_file_name = basename key, up_s3_key = key, up_status = ''failed'',
                up_total_records = None, up_processed_records = None,
                up_failed_records = None, up_error_message = Some e,
                up_processed_at = Some (current_timestamp ev)\<rparr>),
            upload_id_seq := upload_id_seq d + 1\<rparr>, [])"
proof -
  have p: "process_csv_file ev bucket key d1 = Inl e" for d1
    using assms(1) by (rule process_csv_file_fetch_fails)
  have "handler ev ((bucket, key) # rest) d = handler_except ev (upload_id_seq d) e (created key d)"
    by (simp add: handler_created[OF assms(2)] p)
  also have "\<dots> = (Response 500 (Failed e),
        (created key d)\<lparr>csv_uploads := (csv_uploads (created key d))(upload_id_seq d \<mapsto>
           update_row (current_timestamp ev) ''failed'' None None None (Some e) (pending_row (basename key) key))\<rparr>, [])"
    by (rule handler_except_ok[OF assms(3)]) (simp add: created_simps)
  finally show ?thesis
    by (simp add: p update_row_failed created_def)
qed

text \<open>
  A run that answers 200 has written the upload record as completed, with the first ten
  error messages joined as its error message (none when the list is empty).
\<close>

lemma handler_completed_message:
  assumes "handler ev ((bucket, key) # rest) d = (resp, d', ns)" and "status_code resp = 200"
  shows "\<exists>t p f errs d2 r.
           process_csv_file ev bucket key (created key d) = Inr ((t, p, f, errs), d2)
           \<and> csv_uploads d' (upload_id_seq d) = Some r \<and> up_status r = ''completed''
           \<and> up_error_message r = (if errs \<noteq> [] then Some (join ''; '' (take 10 errs)) else None)"
proof (cases "db_fault ev CreateUpload")
  case (Some e)
  from handler_create_fault[OF Some, of bucket key rest d] assms show ?thesis
    by (simp add: status_code_def)
next
  case None
  let ?i = "upload_id_seq d"
  let ?d1 = "created key d"
  note h = handler_created[OF None, of bucket key rest d]
  show ?thesis
  proof (cases "process_csv_file ev bucket key ?d1")
    case (Inl e)
    with h assms(1) have "handler_except ev ?i e ?d1 = (resp, d', ns)" by simp
    with handler_except_silent[of ev ?i e ?d1] assms(2) show ?thesis by simp
  next
    case (Inr res)
    obtain t p f errs d2 where res: "res = ((t, p, f, errs), d2)"
      by (metis prod.exhaust)
    from Inr res have pr: "process_csv_file ev bucket key ?d1 = Inr ((t, p, f, errs), d2)" by simp
    from process_csv_file_Inr[OF pr] have "csv_uploads d2 = csv_uploads ?d1" by blast
    then have row2: "csv_uploads d2 ?i = Some (pending_row (basename key) key)"
      by (simp add: created_simps)
    let ?m = "if errs \<noteq> [] then Some (join ''; '' (take 10 errs)) else None"
    show ?thesis
    proof (cases "db_fault ev (UpdateStatus ''completed'')")
      case None
      from update_ok[OF None row2, of "Some t" "Some p" "Some f" ?m] h pr assms(1)
      have d': "d' = d2\<lparr>csv_uploads := (csv_uploads d2)(?i \<mapsto>
                  update_row (current_timestamp ev) ''completed'' (Some t) (Some p) (Some f) ?m
                    (pending_row (basename key) key))\<rparr>"
        by simp
      have "csv_uploads d' ?i = Some \<lparr>up_file_name = basename key, up_s3_key = key, up_status = ''completed'',
              up_total_records = Some t, up_processed_records = Some p, up_failed_records = Some f,
              up_error_message = ?m, up_processed_at = Some (current_timestamp ev)\<rparr>"
        unfolding d' update_row_completed by simp
      with pr show ?thesis by auto
    next
      case (Some e)
      from update_fault[OF Some, of ?i "Some t" "Some p" "Some f" ?m d2] h pr assms(1)
      have "handler_except ev ?i e d2 = (resp, d', ns)" by simp
      with handler_except_silent[of ev ?i e d2] assms(2) show ?thesis by simp
    qed
  qed
qed

lemma process_users:
  "(if run_input ev ((bucket, key) # rest) \<noteq> [] \<and> db_fault ev InsertBatch = None
      then batch_users ev (run_input ev ((bucket, key) # rest)) (users d) else users d) =
     (case process_csv_file ev bucket key d of Inl e \<Rightarrow> users d | Inr (res, d') \<Rightarrow> users d')"
proof (cases "get_object ev bucket key")
  case (Inl e)
  then show ?thesis by (simp add: process_csv_file_fetch_fails run_input_def)
next
  case (Inr content)
  show ?thesis
  proof (cases "csv_reader ev content")
    case (Inl e)
    with Inr show ?thesis by (simp add: process_csv_file_reader_fails run_input_def)
  next
    case r: (Inr recs)
    have ri: "run_input ev ((bucket, key) # rest) = accepted_users (float_of_str ev) (DictReader recs)"
      using Inr r by (simp add: run_input_def)
    note closed = process_csv_file_closed[OF Inr r, of d]
    show ?thesis
    proof (cases "db_fault ev InsertBatch")
      case None
      from insert_users_batch_ok[OF None, of "accepted_users (float_of_str ev) (DictReader recs)" d]
      show ?thesis unfolding closed ri by (auto simp: Let_def None)
    next
      case (Some e)
      then show ?thesis unfolding closed ri by (simp add: Let_def insert_users_batch_fault)
    qed
  qed
qed

text \<open>Where the handler leaves the users table: untouched, or as the batch left it.\<close>

lemma handler_users:
  "users (fst (snd (handler ev event d))) =
     (if batch_applied ev event then batch_users ev (run_input ev event) (users d) else users d)"
proof (cases event)
  case Nil
  then show ?thesis by (simp add: handler_def batch_applied_def)
next
  case (Cons bk rest)
  obtain bucket key where bk: "bk = (bucket, key)" by (cases bk)
  show ?thesis
  proof (cases "db_fault ev CreateUpload")
    case (Some e)
    with Cons bk show ?thesis by (simp add: handler_create_fault batch_applied_def)
  next
    case None
    note h = handler_created[OF None, of bucket key rest d]
    have rhs: "(if batch_applied ev event then batch_users ev (run_input ev event) (users d) else users d)
        = (case process_csv_file ev bucket key (created key d) of
             Inl e \<Rightarrow> users d | Inr (res, d') \<Rightarrow> users d')"
    proof -
      have "batch_applied ev event = (run_input ev ((bucket, key) # rest) \<noteq> [] \<and> db_fault ev InsertBatch = None)"
        using None Cons bk by (simp add: batch_applied_def)
      moreover have "run_input ev event = run_input ev ((bucket, key) # rest)"
        using Cons bk by simp
      moreover note process_users[where ev = ev and bucket = bucket and key = key
                                    and d = "created key d" and rest = rest]
      ultimately show ?thesis by (simp only: created_simps)
    qed
    have hev: "handler ev event d = handler ev ((bucket, key) # rest) d"
      using Cons bk by simp
    show ?thesis
    proof (cases "process_csv_file ev bucket key (created key d)")
      case (Inl e)
      then have "handler ev event d = handler_except ev (upload_id_seq d) e (created key d)"
        unfolding hev h by simp
      then have "users (fst (snd (handler ev event d))) = users d"
        by (simp add: handler_except_users created_simps)
      moreover from Inl have "(case process_csv_file ev bucket key (created key d) of
             Inl e \<Rightarrow> users d | Inr (res, d') \<Rightarrow> users d') = users d" by simp
      ultimately show ?thesis unfolding rhs by simp
    next
      case (Inr res)
      obtain t p f errs d2 where res: "res = ((t, p, f, errs), d2)" by (metis prod.exhaust)
      from Inr res have pr: "process_csv_file ev bucket key (created key d) = Inr ((t, p, f, errs), d2)"
        by simp
      let ?m = "if errs \<noteq> [] then Some (join ''; '' (take 10 errs)) else None"
      have fin: "users (fst (snd (handler ev event d))) = users d2"
      proof (cases "update_csv_upload_status ev (upload_id_seq d) ''completed'' (Some t) (Some p) (Some f) ?m d2")
        case (Inl e)
        then have "handler ev event d = handler_except ev (upload_id_seq d) e d2"
          unfolding hev h pr by simp
        then show ?thesis by (simp add: handler_except_users)
      next
        case (Inr xd)
        obtain x d3 where xd: "xd = (x, d3)" by (cases xd)
        from Inr xd have "users d3 = users d2" by (auto dest: update_keeps_users)
        moreover from Inr xd have "fst (snd (handler ev event d)) = d3"
          unfolding hev h pr by simp
        ultimately show ?thesis by simp
      qed
      moreover from pr have "(case process_csv_file ev bucket key (created key d) of
             Inl e \<Rightarrow> users d | Inr (res, d') \<Rightarrow> users d') = users d2" by simp
      ultimately show ?thesis unfolding rhs by simp
    qed
  qed
qed

lemma handler_ok_applies:
  assumes "status_code (fst (handler ev event d)) = 200" and "run_input ev event \<noteq> []"
  shows "batch_applied ev event"
proof (cases event)
  case Nil
  with assms show ?thesis by (simp add: run_input_def)
next
  case (Cons bk rest)
  obtain bucket key where bk: "bk = (bucket, key)" by (cases bk)
  have hev: "handler ev event d = handler ev ((bucket, key) # rest) d"
    using Cons bk by simp
  show ?thesis
  proof (cases "db_fault ev CreateUpload")
    case (Some e)
    then have "handler ev event d = (Response 500 (Failed e), d, [])"
      unfolding hev by (rule handler_create_fault)
    with assms(1) show ?thesis by (simp add: status_code_def)
  next
    case None
    note h = handler_created[OF None, of bucket key rest d]
    show ?thesis
    proof (cases "db_fault ev InsertBatch")
      case None': None
      with None assms(2) Cons show ?thesis by (simp add: batch_applied_def)
    next
      case (Some e)
      from assms(2) Cons bk obtain content recs where
        c: "get_object ev bucket key = Inr content" and r: "csv_reader ev content = Inr recs"
        and ri: "run_input ev event = accepted_users (float_of_str ev) (DictReader recs)"
        by (auto simp: run_input_def split: sum.splits)
      from assms(2) ri have "process_csv_file ev bucket key (created key d) = Inl e"
        by (simp add: process_csv_file_closed[OF c r] Let_def insert_users_batch_fault[OF Some])
      then have "handler ev event d = handler_except ev (upload_id_seq d) e (created key d)"
        unfolding hev h by simp
      then have "status_code (fst (handler ev event d)) = 500"
        by (simp add: handler_except_silent)
      with assms(1) show ?thesis by simp
    qed
  qed
qed

text \<open>The notifier settings do not reach the store operations.\<close>

lemma loop_ignores_notifier:
  "insert_users_loop (ev\<lparr>webhook_url := w, requests_post := rp\<rparr>) us acc = insert_users_loop ev us acc"
proof (induction us arbitrary: acc)
  case Nil
  then show ?case by simp
next
  case (Cons u us)
  obtain s f errs t where acc: "acc = ((s, f, errs), t)" by (metis prod.exhaust)
  have "execute_upsert (ev\<lparr>webhook_url := w, requests_post := rp\<rparr>) u t = execute_upsert ev u t"
    by (simp add: execute_upsert_def)
  with Cons.IH acc show ?case by (simp split: prod.splits sum.splits)
qed

lemma batch_ignores_notifier:
  "insert_users_batch (ev\<lparr>webhook_url := w, requests_post := rp\<rparr>) us d = insert_users_batch ev us d"
  by (simp add: insert_users_batch_def loop_ignores_notifier)

lemma process_ignores_notifier:
  "process_csv_file (ev\<lparr>webhook_url := w, requests_post := rp\<rparr>) bucket key d = process_csv_file ev bucket key d"
  by (simp add: process_csv_file_def batch_ignores_notifier split: sum.splits prod.splits)

lemma update_ignores_notifier:
  "update_csv_upload_status (ev\<lparr>webhook_url := w, requests_post := rp\<rparr>) i st a b c m d =
     update_csv_upload_status ev i st a b c m d"
  by (simp add: update_csv_upload_status_def cong: option.case_cong)

lemma create_ignores_notifier:
  "create_csv_upload_record (ev\<lparr>webhook_url := w, requests_post := rp\<rparr>) fname key d =
     create_csv_upload_record ev fname key d"
  by (simp add: create_csv_upload_record_def)

lemma handler_except_ignores_notifier:
  "handler_except (ev\<lparr>webhook_url := w, requests_post := rp\<rparr>) i e d = handler_except ev i e d"
  by (simp add: handler_except_def update_ignores_notifier)

section \<open>Upserts on the users table\<close>

lemma conflicts_proposed:
  "conflicts (proposed_row now u) r = (col_email r = Some (email u))"
  by (simp add: conflicts_def proposed_row_def)

lemma proposed_row_sel:
  "col_email (proposed_row now u) = Some (email u)"
  "col_monthly_income (proposed_row now u) = monthly_income u"
  "col_credit_score (proposed_row now u) = credit_score u"
  "col_employment_status (proposed_row now u) = Some (employment_status u)"
  "col_age (proposed_row now u) = age u"
  "created_at (proposed_row now u) = now"
  "updated_at (proposed_row now u) = now"
  by (simp_all add: proposed_row_def)

lemma upsert_cases:
  "upsert ev tbl u =
     (if Some (email u) \<in> col_email ` set tbl
      then map (\<lambda>r. overwrite (current_timestamp ev) r u) tbl
      else tbl @ [proposed_row (current_timestamp ev) u])"
proof -
  have "list_ex (conflicts (proposed_row (current_timestamp ev) u)) tbl
          = (Some (email u) \<in> col_email ` set tbl)"
    by (force simp: list_ex_iff conflicts_proposed)
  moreover have "(\<lambda>r. if conflicts (proposed_row (current_timestamp ev) u) r then
                    r\<lparr>col_monthly_income := col_monthly_income (proposed_row (current_timestamp ev) u),
                      col_credit_score := col_credit_score (proposed_row (current_timestamp ev) u),
                      col_employment_status := col_employment_status (proposed_row (current_timestamp ev) u),
                      col_age := col_age (proposed_row (current_timestamp ev) u),
                      updated_at := updated_at (proposed_row (current_timestamp ev) u)\<rparr>
                  else r) = (\<lambda>r. overwrite (current_timestamp ev) r u)"
    by (rule ext) (simp add: conflicts_proposed overwrite_def proposed_row_sel)
  ultimately show ?thesis
    by (simp add: upsert_def insert_on_conflict_update_def)
qed

lemma overwrite_email: "col_email (overwrite now r u) = col_email r"
  by (simp add: overwrite_def)

lemma fold_overwrite_email: "col_email (foldl (overwrite now) r us) = col_email r"
  by (induction us arbitrary: r) (simp_all add: overwrite_email)

lemma upsert_emails:
  "col_email ` set (upsert ev tbl u) = insert (Some (email u)) (col_email ` set tbl)"
  by (auto simp: upsert_cases overwrite_email proposed_row_def image_iff)

lemma fold_upsert_emails:
  "col_email ` set (foldl (upsert ev) tbl us) = col_email ` set tbl \<union> (\<lambda>u. Some (email u)) ` set us"
  by (induction us arbitrary: tbl) (auto simp: upsert_emails)

lemma fold_upsert_present:
  "\<forall>u\<in>set us. Some (email u) \<in> col_email ` set tbl \<Longrightarrow>
     foldl (upsert ev) tbl us = map (\<lambda>r. foldl (overwrite (current_timestamp ev)) r us) tbl"
proof (induction us arbitrary: tbl)
  case Nil
  then show ?case by simp
next
  case (Cons u us)
  let ?tbl' = "map (\<lambda>r. overwrite (current_timestamp ev) r u) tbl"
  from Cons.prems have step: "upsert ev tbl u = ?tbl'" by (simp add: upsert_cases)
  have "col_email ` set ?tbl' = col_email ` set tbl"
    by (auto simp: overwrite_email image_iff)
  with Cons.prems have "\<forall>v\<in>set us. Some (email v) \<in> col_email ` set ?tbl'" by simp
  from Cons.IH[OF this] step show ?case by (simp add: comp_def)
qed

lemma last_with_email_snoc:
  "last_with_email (us @ [u]) e = (if Some (email u) = e then Some u else last_with_email us e)"
  by (simp add: last_with_email_def)

lemma last_with_email_Nil: "last_with_email [] e = None"
  by (simp add: last_with_email_def)

lemma stored_as_overwrite:
  "col_email r = Some (email u) \<Longrightarrow> stored_as (overwrite now r u) u"
  by (simp add: overwrite_def stored_as_def)

lemma stored_as_proposed: "stored_as (proposed_row now u) u"
  by (simp add: stored_as_def proposed_row_def)

lemma fold_upsert_stored:
  "r \<in> set (foldl (upsert ev) tbl us) \<Longrightarrow> last_with_email us (col_email r) = Some u \<Longrightarrow> stored_as r u"
proof (induction us arbitrary: r u rule: rev_induct)
  case Nil
  then show ?case by (simp add: last_with_email_Nil)
next
  case (snoc v us)
  let ?tbl = "foldl (upsert ev) tbl us"
  from snoc.prems(1) have mem: "r \<in> set (upsert ev ?tbl v)" by simp
  show ?case
  proof (cases "col_email r = Some (email v)")
    case True
    with snoc.prems(2) have uv: "u = v" by (simp add: last_with_email_snoc)
    from mem True consider
      (upd) r' where "r' \<in> set ?tbl" "r = overwrite (current_timestamp ev) r' v"
      | (new) "r = proposed_row (current_timestamp ev) v"
      by (force simp: upsert_cases split: if_splits)
    then show ?thesis
    proof cases
      case upd
      with True have "col_email r' = Some (email v)" by (simp add: overwrite_email)
      with upd uv show ?thesis by (simp add: stored_as_overwrite)
    next
      case new
      with uv show ?thesis by (simp add: stored_as_proposed)
    qed
  next
    case False
    with snoc.prems(2) have lw: "last_with_email us (col_email r) = Some u"
      by (auto simp: last_with_email_snoc split: if_splits)
    from mem False have "r \<in> set ?tbl"
      by (auto simp: upsert_cases overwrite_def proposed_row_def split: if_splits)
    from snoc.IH[OF this lw] show ?thesis .
  qed
qed

lemma fold_overwrite_closed:
  "foldl (overwrite now) r us =
     (case last_with_email us (col_email r) of
        None \<Rightarrow> r
      | Some u \<Rightarrow> r\<lparr>col_monthly_income := monthly_income u, col_credit_score := credit_score u,
                   col_employment_status := Some (employment_status u), col_age := age u,
                   updated_at := now\<rparr>)"
proof (induction us rule: rev_induct)
  case Nil
  then show ?case by (simp add: last_with_email_Nil)
next
  case (snoc v us)
  show ?case
  proof (cases "col_email r = Some (email v)")
    case True
    then have "col_email (foldl (overwrite now) r us) = Some (email v)"
      by (simp add: fold_overwrite_email)
    with True snoc.IH show ?thesis
      by (simp add: last_with_email_snoc overwrite_def split: option.splits)
  next
    case False
    then have "col_email (foldl (overwrite now) r us) \<noteq> Some (email v)"
      by (simp add: fold_overwrite_email)
    with False snoc.IH show ?thesis
      by (auto simp: last_with_email_snoc overwrite_def split: option.splits)
  qed
qed

lemma fold_overwrite_forget:
  assumes "\<And>u. last_with_email us (col_email r) = Some u \<Longrightarrow> stored_as r u"
  shows "forget_updated (foldl (overwrite now) r us) = forget_updated r"
proof (cases "last_with_email us (col_email r)")
  case None
  then show ?thesis by (simp add: fold_overwrite_closed)
next
  case (Some u)
  from assms[OF Some] have "stored_as r u" .
  then show ?thesis
    unfolding fold_overwrite_closed Some forget_updated_def stored_as_def
    by (intro users_row.equality) simp_all
qed

lemma fold_upsert_twice:
  "map forget_updated (foldl (upsert ev2) (foldl (upsert ev1) tbl us) us)
     = map forget_updated (foldl (upsert ev1) tbl us)"
proof -
  let ?tbl1 = "foldl (upsert ev1) tbl us"
  have "\<forall>u\<in>set us. Some (email u) \<in> col_email ` set ?tbl1"
    by (simp add: fold_upsert_emails)
  from fold_upsert_present[OF this]
  have "foldl (upsert ev2) ?tbl1 us = map (\<lambda>r. foldl (overwrite (current_timestamp ev2)) r us) ?tbl1" .
  moreover have "forget_updated (foldl (overwrite (current_timestamp ev2)) r us) = forget_updated r"
    if "r \<in> set ?tbl1" for r
    using fold_upsert_stored[OF that] by (intro fold_overwrite_forget)
  ultimately show ?thesis by simp
qed

lemma emails_upsert:
  "distinct (emails tbl) \<Longrightarrow> distinct (emails (upsert ev tbl u))"
proof -
  have e_map: "emails (map (\<lambda>r. overwrite now r u) tbl) = emails tbl" for now
    by (induction tbl) (simp_all add: emails_def map_filter_simps overwrite_email split: option.splits)
  have e_app: "emails (tbl @ [r]) = emails tbl @ (case col_email r of None \<Rightarrow> [] | Some e \<Rightarrow> [e])" for r
    by (induction tbl) (simp_all add: emails_def map_filter_simps split: option.splits)
  have e_set: "set (emails tbl) = {e. Some e \<in> col_email ` set tbl}"
    by (induction tbl) (auto simp: emails_def map_filter_simps split: option.splits)
  assume "distinct (emails tbl)"
  then show ?thesis
    by (auto simp: upsert_cases e_map e_app e_set proposed_row_def)
qed

lemma emails_fold_upsert:
  "distinct (emails tbl) \<Longrightarrow> distinct (emails (foldl (upsert ev) tbl us))"
  by (induction us arbitrary: tbl) (simp_all add: emails_upsert)

lemma overwrite_at:
  assumes "i < length tbl" and "col_email (tbl ! i) = Some (email u)"
  shows "upsert ev tbl u ! i =
           (tbl ! i)\<lparr>col_monthly_income := monthly_income u, col_credit_score := credit_score u,
                     col_employment_status := Some (employment_status u), col_age := age u,
                     updated_at := current_timestamp ev\<rparr>
         \<and> length (upsert ev tbl u) = length tbl"
proof -
  from assms have "Some (email u) \<in> col_email ` set tbl"
    by (metis image_eqI nth_mem)
  then have "upsert ev tbl u = map (\<lambda>r. overwrite (current_timestamp ev) r u) tbl"
    by (simp add: upsert_cases)
  with assms show ?thesis by (simp add: overwrite_def)
qed

lemma batch_users_twice:
  assumes "execute_outcome ev2 = execute_outcome ev1"
  shows "map forget_updated (batch_users ev2 us (batch_users ev1 us tbl))
           = map forget_updated (batch_users ev1 us tbl)"
  using assms by (simp add: batch_users_def fold_upsert_twice)

lemma batch_users_distinct:
  "distinct (emails tbl) \<Longrightarrow> distinct (emails (batch_users ev us tbl))"
  by (simp add: batch_users_def emails_fold_upsert)

lemma batch_users_all_accepted:
  "\<forall>u\<in>set us. execute_outcome ev u = Accepted \<Longrightarrow> batch_users ev us tbl = foldl (upsert ev) tbl us"
proof -
  assume a: "\<forall>u\<in>set us. execute_outcome ev u = Accepted"
  then have "\<not> list_ex (\<lambda>u. is_server_error (execute_outcome ev u)) us"
    by (simp add: list_ex_iff)
  moreover from a have "filter (\<lambda>u. execute_outcome ev u = Accepted) us = us"
    by (simp add: filter_id_conv)
  ultimately show ?thesis by (simp add: batch_users_def)
qed

lemma run_input_clock: "run_input (ev\<lparr>current_timestamp := t2\<rparr>) event = run_input ev event"
  by (simp add: run_input_def cong: list.case_cong sum.case_cong)

lemma batch_applied_clock:
  "batch_applied (ev\<lparr>current_timestamp := t2\<rparr>) event = batch_applied ev event"
  by (simp add: batch_applied_def run_input_clock)

section \<open>The example runs, evaluated\<close>

lemma example_records:
  "plain_reader example_payload = Inr
     [[''email'', ''monthly_income'', ''credit_score'', ''employment_status'', ''age''],
      [''a@x.org'', ''5000'', ''700'', ''employed'', ''30''],
      [''b@x.org'', ''100'', ''200'', ''none'', ''40''],
      [''c@x.org'', ''100'', ''650'', ''none'', ''40'']]"
  by (simp add: plain_reader_def example_payload_def splitlines_def)

lemmas run_eval = process_csv_file_def example_env_def example_records DictReader_def dict_row_def
  validate_user_data_def validate_user_data_try_def row_get_def int_of_str_def int_space_def
  int_max_str_digits_def strip_def
  isspace_def isdigit_def digit_val_def plain_float_def str_nat.simps digit_char_def
  insert_users_batch_def get_db_cursor_def execute_upsert_def cursor_execute_def
  proposed_row_def insert_on_conflict_update_def conflicts_def example_db_def
  handler_def create_csv_upload_record_def update_csv_upload_status_def update_row_def
  set_if_given_def basename_def trigger_matching_workflow_def example_event_def Let_def

lemma ex_handler:
  "handler example_env example_event example_db =
     (Response 200 (Processed 1 3 2 1),
      \<lparr>users = [\<lparr>col_user_id = None, col_name = None, col_email = Some ''a@x.org'',
                 col_monthly_income = Finite 5000, col_credit_score = 700,
                 col_employment_status = Some ''employed'', col_age = 30,
                 created_at = 1, updated_at = 7\<rparr>,
                \<lparr>col_user_id = None, col_name = None, col_email = Some ''c@x.org'',
                 col_monthly_income = Finite 100, col_credit_score = 650,
                 col_employment_status = Some ''none'', col_age = 40,
                 created_at = 7, updated_at = 7\<rparr>],
       csv_uploads = [1 \<mapsto> \<lparr>up_file_name = ''a.csv'', up_s3_key = ''uploads/a.csv'',
                            up_status = ''completed'', up_total_records = Some 3,
                            up_processed_records = Some 2, up_failed_records = Some 1,
                            up_error_message = Some ''Row 2: Invalid data'',
                            up_processed_at = Some 7\<rparr>],
       upload_id_seq = 2\<rparr>,
      [Requested ''http://n8n.example/webhook''
         [(''event'', ''csv_processed''), (''bucket'', ''ingest-bucket''),
          (''key'', ''uploads/a.csv''), (''timestamp'', ''{}'')]
         (Inl ''connection refused'')])"
  by (simp add: run_eval numeral_2_eq_2 numeral_3_eq_3)

lemma ex_run_1:
  "handler example_env example_event example_db =
     (Response 200 (Processed 1 3 2 1), example_db_1, [example_notification])"
  by (simp add: ex_handler example_db_1_def example_users_after_def example_upload_def
        example_notification_def)

lemma ex_run_2:
  "handler (example_env\<lparr>current_timestamp := 9\<rparr>) example_event example_db_1 =
     (Response 200 (Processed 2 3 2 1), example_db_2, [example_notification])"
  by (simp add: run_eval example_db_1_def example_db_2_def example_users_after_def
        example_upload_def example_notification_def numeral_2_eq_2 numeral_3_eq_3 fun_upd_twist)

lemma ex_run_input:
  "run_input example_env example_event =
     [\<lparr>email = ''a@x.org'', monthly_income = Finite 5000, credit_score = 700,
       employment_status = ''employed'', age = 30\<rparr>,
      \<lparr>email = ''c@x.org'', monthly_income = Finite 100, credit_score = 650,
       employment_status = ''none'', age = 40\<rparr>]"
  by (simp add: run_input_def accepted_users_def map_filter_simps run_eval)

lemma ex_batch_1:
  "insert_users_batch strict_env [example_user ''b@x.org'', example_user ''c@x.org''] example_db =
     Inr ((1, 1, [''Failed to insert user c@x.org: value too long for type character varying(50)''
                    @ [CHR 0x0A]]),
          example_db)"
  by (simp add: run_eval strict_env_def example_user_def)

lemma ex_batch_2:
  "insert_users_batch strict_env [example_user ''c@x.org'', example_user ''b@x.org''] example_db =
     Inr ((0, 2, [''Failed to insert user c@x.org: value too long for type character varying(50)''
                    @ [CHR 0x0A],
                  ''Failed to insert user b@x.org: current transaction is aborted, commands ignored until end of transaction block''
                    @ [CHR 0x0A]]),
          example_db)"
  by (simp add: run_eval strict_env_def example_user_def in_failed_transaction_def)

lemma ex_batch_3:
  "insert_users_batch strict_env [example_user ''b@x.org''] example_db =
     Inr ((1, 0, []),
          example_db\<lparr>users := users example_db @ [proposed_row 7 (example_user ''b@x.org'')]\<rparr>)"
  by (simp add: run_eval strict_env_def example_user_def)

lemma ex_legacy:
  "lambda_handler_insert example_env [example_row ''a@x.org'' ''700'' ''30''] example_db =
     Inr ((0, 1), example_db)"
  by (simp add: lambda_handler_insert_def legacy_params_def insert_on_conflict_nothing_def
        example_row_def run_eval)

lemma ex_rows:
  "DictReader [[''email'', ''monthly_income'', ''credit_score'', ''employment_status'', ''age''],
      [''a@x.org'', ''5000'', ''700'', ''employed'', ''30''],
      [''b@x.org'', ''100'', ''200'', ''none'', ''40''],
      [''c@x.org'', ''100'', ''650'', ''none'', ''40'']] ! 1 =
   second_example_row"
  by (simp add: DictReader_def dict_row_def second_example_row_def)

lemma ex_row_2_exception:
  "validate_user_data_try plain_float
     second_example_row
    = Inl (ValueError ''Credit score 200 out of range (300-850)'')"
  by (simp add: validator_eval second_example_row_def str_int_def str_nat.simps digit_char_def)

lemma ex_process:
  "process_csv_file example_env ''ingest-bucket'' ''uploads/a.csv'' example_db =
     Inr ((3, 2, 1, [''Row 2: Invalid data'']), example_db\<lparr>users := example_users_after 7\<rparr>)"
  by (simp add: run_eval example_users_after_def numeral_2_eq_2 numeral_3_eq_3)

lemma ex_process_created:
  "process_csv_file example_env ''ingest-bucket'' ''uploads/a.csv''
       (created ''uploads/a.csv'' example_db) =
     Inr ((3, 2, 1, [''Row 2: Invalid data'']),
          (created ''uploads/a.csv'' example_db)\<lparr>users := example_users_after 7\<rparr>)"
  by (simp add: run_eval created_def pending_row_def example_users_after_def
        numeral_2_eq_2 numeral_3_eq_3)

lemma ex_strict_run_1:
  "handler strict_env example_event example_db =
     (Response 200 (Processed 1 3 1 2), strict_db_1, [example_notification])"
  by (simp add: run_eval strict_env_def strict_db_1_def strict_upload_def
        example_notification_def numeral_2_eq_2 numeral_3_eq_3)

lemma ex_strict_run_2:
  "handler (strict_env\<lparr>current_timestamp := 9\<rparr>) example_event strict_db_1 =
     (Response 200 (Processed 2 3 1 2), strict_db_2, [example_notification])"
  by (simp add: run_eval strict_env_def strict_db_1_def strict_db_2_def strict_upload_def
        example_notification_def numeral_2_eq_2 numeral_3_eq_3 fun_upd_twist)

lemma ex_strict_input:
  "run_input strict_env example_event =
     [\<lparr>email = ''a@x.org'', monthly_income = Finite 5000, credit_score = 700,
       employment_status = ''employed'', age = 30\<rparr>,
      \<lparr>email = ''c@x.org'', monthly_income = Finite 100, credit_score = 650,
       employment_status = ''none'', age = 40\<rparr>]"
  by (simp add: run_input_def accepted_users_def map_filter_simps run_eval strict_env_def)

lemma ex_no_text:
  "handler no_text_env example_event example_db =
        (Response 500 (Failed []),
         example_db\<lparr>csv_uploads := (csv_uploads example_db)(1 \<mapsto>
              \<lparr>up_file_name = ''a.csv'', up_s3_key = ''uploads/a.csv'',
               up_status = ''failed'', up_total_records = None, up_processed_records = None,
               up_failed_records = None, up_error_message = Some [],
               up_processed_at = Some 7\<rparr>),
           upload_id_seq := 2\<rparr>, [])"
  by (simp add: run_eval no_text_env_def handler_except_def)

section \<open>The lifecycle record and its counts\<close>

text \<open>
  C1. Every upload record that a run of \<^verbatim>\<open>handler\<close> finalizes satisfies
  total = processed + failed. When the creation of the record succeeds, the run leaves
  the record of its upload in the store; if its status is \<^verbatim>\<open>completed\<close>, the three counts
  are those that \<^verbatim>\<open>process_csv_file\<close> returned, total is the number of data rows read,
  processed is the success count of \<^verbatim>\<open>insert_users_batch\<close> and failed is the number of
  rejected rows plus its failure count (all rows when no row was accepted), and
  total = processed + failed. Otherwise the status is \<^verbatim>\<open>failed\<close> or still \<^verbatim>\<open>pending\<close> and no
  count was written.
\<close>

theorem finalized_counts_add_up:
  assumes "db_fault ev CreateUpload = None"
      and "handler ev ((bucket, key) # rest) d = (resp, d', ns)"
  shows "\<exists>r. csv_uploads d' (upload_id_seq d) = Some r \<and>
           (if up_status r = ''completed'' then
              \<exists>t p f errs d2 content recs.
                 process_csv_file ev bucket key (created key d) = Inr ((t, p, f, errs), d2)
                 \<and> up_total_records r = Some t \<and> up_processed_records r = Some p
                 \<and> up_failed_records r = Some f
                 \<and> t = p + f
                 \<and> get_object ev bucket key = Inr content \<and> csv_reader ev content = Inr recs
                 \<and> t = length (DictReader recs)
                 \<and> (let us = accepted_users (float_of_str ev) (DictReader recs);
                         rej = length (filter (rejected (float_of_str ev)) (DictReader recs))
                     in if us = [] then p = 0 \<and> f = rej
                        else \<exists>s fc db_errors.
                               insert_users_batch ev us (created key d) = Inr ((s, fc, db_errors), d2)
                               \<and> p = s \<and> f = rej + fc)
            else no_counts r \<and> (up_status r = ''failed'' \<or> up_status r = ''pending''))"
proof -
  let ?i = "upload_id_seq d"
  let ?d1 = "created key d"
  have row1: "csv_uploads ?d1 ?i = Some (pending_row (basename key) key)"
    by (simp add: created_simps)
  note h = handler_created[OF assms(1), of bucket key rest d]
  show ?thesis
  proof (cases "process_csv_file ev bucket key ?d1")
    case (Inl e)
    with h assms(2) have "handler_except ev ?i e ?d1 = (resp, d', ns)" by simp
    from handler_except_row[OF row1 pending_row_facts this]
    show ?thesis by auto
  next
    case (Inr res)
    obtain t p f errs d2 where res: "res = ((t, p, f, errs), d2)"
      by (metis prod.exhaust)
    from Inr res have pr: "process_csv_file ev bucket key ?d1 = Inr ((t, p, f, errs), d2)" by simp
    from process_csv_file_Inr[OF pr] obtain content recs where
      facts: "get_object ev bucket key = Inr content" "csv_reader ev content = Inr recs"
        "t = length (DictReader recs)" "t = p + f" "csv_uploads d2 = csv_uploads ?d1"
      and sem: "(let us = accepted_users (float_of_str ev) (DictReader recs);
                   rej = length (filter (rejected (float_of_str ev)) (DictReader recs))
               in if us = [] then p = 0 \<and> f = t \<and> d2 = ?d1
                  else \<exists>s fc db_errors. insert_users_batch ev us ?d1 = Inr ((s, fc, db_errors), d2)
                         \<and> p = s \<and> f = rej + fc
                         \<and> d2 = ?d1\<lparr>users := batch_users ev us (users ?d1)\<rparr>)"
      by blast
    have sem': "(let us = accepted_users (float_of_str ev) (DictReader recs);
                   rej = length (filter (rejected (float_of_str ev)) (DictReader recs))
               in if us = [] then p = 0 \<and> f = rej
                  else \<exists>s fc db_errors. insert_users_batch ev us ?d1 = Inr ((s, fc, db_errors), d2)
                         \<and> p = s \<and> f = rej + fc)"
    proof (cases "accepted_users (float_of_str ev) (DictReader recs) = []")
      case True
      with sem facts(3,4) accepted_plus_rejected[of "float_of_str ev" "DictReader recs"]
      show ?thesis by (simp add: Let_def)
    next
      case False
      with sem show ?thesis by (auto simp: Let_def)
    qed
    have row2: "csv_uploads d2 ?i = Some (pending_row (basename key) key)"
      using facts(5) row1 by simp
    let ?m = "if errs \<noteq> [] then Some (join ''; '' (take 10 errs)) else None"
    show ?thesis
    proof (cases "db_fault ev (UpdateStatus ''completed'')")
      case None
      from update_ok[OF None row2, of "Some t" "Some p" "Some f" ?m] h pr assms(2)
      have d': "d' = d2\<lparr>csv_uploads := (csv_uploads d2)(?i \<mapsto>
                  update_row (current_timestamp ev) ''completed'' (Some t) (Some p) (Some f) ?m
                    (pending_row (basename key) key))\<rparr>"
        by simp
      have "csv_uploads d' ?i = Some \<lparr>up_file_name = basename key, up_s3_key = key, up_status = ''completed'',
              up_total_records = Some t, up_processed_records = Some p, up_failed_records = Some f,
              up_error_message = ?m, up_processed_at = Some (current_timestamp ev)\<rparr>"
        unfolding d' update_row_completed by simp
      with pr facts sem' show ?thesis by auto
    next
      case (Some e)
      from update_fault[OF Some, of ?i "Some t" "Some p" "Some f" ?m d2] h pr assms(2)
      have "handler_except ev ?i e d2 = (resp, d', ns)" by simp
      from handler_except_row[OF row2 pending_row_facts this]
      show ?thesis by auto
    qed
  qed
qed

theorem finalized_counts_add_up_witness:
  "db_fault example_env CreateUpload = None
   \<and> handler example_env example_event example_db =
        (Response 200 (Processed 1 3 2 1), example_db_1, [example_notification])
   \<and> (\<exists>r. csv_uploads example_db_1 1 = Some r \<and> up_status r = ''completed''
          \<and> up_total_records r = Some 3 \<and> up_processed_records r = Some 2
          \<and> up_failed_records r = Some 1)"
  using finalized_counts_add_up[of example_env "''ingest-bucket''" "''uploads/a.csv''" "[]" example_db
      "Response 200 (Processed 1 3 2 1)" example_db_1 "[example_notification]"]
    ex_run_1
  by (simp add: example_env_def example_db_1_def example_upload_def example_event_def)

section \<open>Conflict resolution\<close>

text \<open>
  C2, amended. In \<^verbatim>\<open>insert_users_batch\<close>, a statement the store accepts for a record
  whose email is already in the users table overwrites the monthly income, the credit
  score, the employment status and the age of that row, sets \<^verbatim>\<open>updated_at\<close> to the time of
  the transaction, and keeps every other column, \<^verbatim>\<open>created_at\<close> among them. The statement
  of the second writer, \<^verbatim>\<open>process_csv.lambda_handler\<close>, leaves the table unchanged on the
  same conflict.
\<close>

theorem batch_upsert_overwrites_on_conflict:
  assumes "execute_outcome ev u = Accepted" and "\<not> aborted t"
      and "i < length (users (work t))" and "col_email (users (work t) ! i) = Some (email u)"
  shows "\<exists>t'. execute_upsert ev u t = (Inr (), t') \<and> \<not> aborted t'
           \<and> length (users (work t')) = length (users (work t))
           \<and> users (work t') ! i =
               (users (work t) ! i)
                 \<lparr>col_monthly_income := monthly_income u, col_credit_score := credit_score u,
                  col_employment_status := Some (employment_status u), col_age := age u,
                  updated_at := current_timestamp ev\<rparr>
           \<and> created_at (users (work t') ! i) = created_at (users (work t) ! i)
           \<and> (\<forall>new. col_email new = Some (email u) \<longrightarrow>
                  insert_on_conflict_nothing new (users (work t)) = (0, users (work t)))"
proof -
  have ex: "execute_upsert ev u t =
      (Inr (), t\<lparr>work := (work t)\<lparr>users := upsert ev (users (work t)) u\<rparr>\<rparr>)"
    using assms(1,2) by (simp add: execute_upsert_cases)
  note at = overwrite_at[OF assms(3,4), of ev]
  have noop: "\<forall>new. col_email new = Some (email u) \<longrightarrow>
                  insert_on_conflict_nothing new (users (work t)) = (0, users (work t))"
  proof (intro allI impI)
    fix new :: users_row
    assume "col_email new = Some (email u)"
    with assms(3,4) have "conflicts new (users (work t) ! i)" by (simp add: conflicts_def)
    with assms(3) have "list_ex (conflicts new) (users (work t))"
      unfolding list_ex_iff by (metis nth_mem)
    then show "insert_on_conflict_nothing new (users (work t)) = (0, users (work t))"
      by (simp add: insert_on_conflict_nothing_def)
  qed
  let ?t' = "t\<lparr>work := (work t)\<lparr>users := upsert ev (users (work t)) u\<rparr>\<rparr>"
  have p1: "execute_upsert ev u t = (Inr (), ?t')" by (rule ex)
  have p2: "\<not> aborted ?t'" using assms(2) by simp
  have p3: "length (users (work ?t')) = length (users (work t))" using at by simp
  have p4: "users (work ?t') ! i =
               (users (work t) ! i)
                 \<lparr>col_monthly_income := monthly_income u, col_credit_score := credit_score u,
                  col_employment_status := Some (employment_status u), col_age := age u,
                  updated_at := current_timestamp ev\<rparr>" using at by simp
  have p5: "created_at (users (work ?t') ! i) = created_at (users (work t) ! i)"
    unfolding p4 by simp
  show ?thesis
    by (intro exI[where x = ?t'] conjI p1 p2 p3 p4 p5 noop)
qed

theorem batch_upsert_overwrites_on_conflict_witness:
  "execute_outcome example_env (example_user ''a@x.org'') = Accepted
   \<and> col_email (users example_db ! 0) = Some ''a@x.org''
   \<and> (\<exists>t'. execute_upsert example_env (example_user ''a@x.org'') \<lparr>work = example_db, aborted = False\<rparr>
              = (Inr (), t')
          \<and> users (work t') =
               [\<lparr>col_user_id = None, col_name = None, col_email = Some ''a@x.org'',
                 col_monthly_income = Finite 5000, col_credit_score = 700,
                 col_employment_status = Some ''employed'', col_age = 30,
                 created_at = 1, updated_at = 7\<rparr>])"
proof -
  have a: "execute_outcome example_env (example_user ''a@x.org'') = Accepted"
    by (simp add: example_env_def)
  have b: "col_email (users example_db ! 0) = Some ''a@x.org''"
    by (simp add: example_db_def)
  have c: "execute_upsert example_env (example_user ''a@x.org'') \<lparr>work = example_db, aborted = False\<rparr>
     = (Inr (), \<lparr>work = example_db\<lparr>users :=
              [\<lparr>col_user_id = None, col_name = None, col_email = Some ''a@x.org'',
                 col_monthly_income = Finite 5000, col_credit_score = 700,
                 col_employment_status = Some ''employed'', col_age = 30,
                 created_at = 1, updated_at = 7\<rparr>]\<rparr>, aborted = False\<rparr>)"
    by (simp add: run_eval example_user_def)
  have "\<exists>t'. execute_upsert example_env (example_user ''a@x.org'')
               \<lparr>work = example_db, aborted = False\<rparr> = (Inr (), t')"
  proof -
    have h2: "\<not> aborted \<lparr>work = example_db, aborted = False\<rparr>" by simp
    have h3: "0 < length (users (work \<lparr>work = example_db, aborted = False\<rparr>))"
      by (simp add: example_db_def)
    have h4: "col_email (users (work \<lparr>work = example_db, aborted = False\<rparr>) ! 0)
                = Some (email (example_user ''a@x.org''))"
      by (simp add: example_db_def example_user_def)
    from batch_upsert_overwrites_on_conflict[OF a h2 h3 h4] show ?thesis by blast
  qed
  then obtain t' where e: "execute_upsert example_env (example_user ''a@x.org'')
               \<lparr>work = example_db, aborted = False\<rparr> = (Inr (), t')" ..
  from e c have "users (work t') =
               [\<lparr>col_user_id = None, col_name = None, col_email = Some ''a@x.org'',
                 col_monthly_income = Finite 5000, col_credit_score = 700,
                 col_employment_status = Some ''employed'', col_age = 30,
                 created_at = 1, updated_at = 7\<rparr>]" by auto
  with e have "\<exists>t'. execute_upsert example_env (example_user ''a@x.org'') \<lparr>work = example_db, aborted = False\<rparr>
              = (Inr (), t')
          \<and> users (work t') =
               [\<lparr>col_user_id = None, col_name = None, col_email = Some ''a@x.org'',
                 col_monthly_income = Finite 5000, col_credit_score = 700,
                 col_employment_status = Some ''employed'', col_age = 30,
                 created_at = 1, updated_at = 7\<rparr>]" by blast
  with a b show ?thesis by (intro conjI)
qed

text \<open>
  The claim as stated fails on the second writer: a row with an email of the table and
  a new income is skipped, and the stored row keeps its old values.
\<close>

theorem second_writer_keeps_old_values:
  "legacy_params example_env (example_row ''a@x.org'' ''700'' ''30'') =
     Inr \<lparr>col_user_id = Some [], col_name = Some [], col_email = Some ''a@x.org'',
          col_monthly_income = Finite 5000, col_credit_score = 700,
          col_employment_status = Some ''employed'', col_age = 30,
          created_at = 7, updated_at = 7\<rparr>
   \<and> lambda_handler_insert example_env [example_row ''a@x.org'' ''700'' ''30''] example_db =
        Inr ((0, 1), example_db)
   \<and> users example_db =
        [\<lparr>col_user_id = None, col_name = None, col_email = Some ''a@x.org'',
          col_monthly_income = Finite 1000, col_credit_score = 600,
          col_employment_status = Some ''student'', col_age = 29,
          created_at = 1, updated_at = 1\<rparr>]"
  by (simp add: ex_legacy) (simp add: legacy_params_def example_row_def run_eval)

section \<open>Idempotence of reprocessing\<close>

text \<open>
  Two runs over the same payload, in the same environment but for the clock: the second
  leaves the users table of the first in every column but \<^verbatim>\<open>updated_at\<close>, which it
  refreshes; no email is duplicated; and when the second run completes and the store
  accepts every statement, every email of the input is stored and every stored row with
  an email of the input carries the values of the last input record with that email.
\<close>

lemma second_run_keeps_rows:
  assumes "handler ev event d0 = (r1, d1, n1)"
      and "handler (ev\<lparr>current_timestamp := t2\<rparr>) event d1 = (r2, d2, n2)"
  shows "map forget_updated (users d2) = map forget_updated (users d1)
     \<and> (distinct (emails (users d0)) \<longrightarrow> distinct (emails (users d2)))
     \<and> (status_code r2 = 200 \<and> (\<forall>u\<in>set (run_input ev event). execute_outcome ev u = Accepted) \<longrightarrow>
          (\<forall>u\<in>set (run_input ev event). \<exists>r\<in>set (users d2). col_email r = Some (email u))
          \<and> (\<forall>r\<in>set (users d2). \<forall>u. last_with_email (run_input ev event) (col_email r) = Some u
                \<longrightarrow> stored_as r u))"
proof -
  let ?ev2 = "ev\<lparr>current_timestamp := t2\<rparr>"
  let ?us = "run_input ev event"
  have u1: "users d1 = (if batch_applied ev event then batch_users ev ?us (users d0) else users d0)"
    using handler_users[of ev event d0] assms(1) by simp
  have u2: "users d2 = (if batch_applied ev event then batch_users ?ev2 ?us (users d1) else users d1)"
    using handler_users[of ?ev2 event d1] assms(2) by (simp add: batch_applied_clock run_input_clock)
  have A: "map forget_updated (users d2) = map forget_updated (users d1)"
  proof (cases "batch_applied ev event")
    case True
    have "execute_outcome ?ev2 = execute_outcome ev" by simp
    from batch_users_twice[OF this, of ?us "users d0"] True u1 u2 show ?thesis by simp
  next
    case False
    with u2 show ?thesis by simp
  qed
  have B: "distinct (emails (users d2))" if "distinct (emails (users d0))"
    using that u1 u2 by (simp add: batch_users_distinct)
  have C: "(\<forall>u\<in>set ?us. \<exists>r\<in>set (users d2). col_email r = Some (email u))
          \<and> (\<forall>r\<in>set (users d2). \<forall>u. last_with_email ?us (col_email r) = Some u \<longrightarrow> stored_as r u)"
    if ok: "status_code r2 = 200" and acc: "\<forall>u\<in>set ?us. execute_outcome ev u = Accepted"
  proof (cases "?us = []")
    case True
    then show ?thesis by (simp add: last_with_email_Nil)
  next
    case False
    from ok assms(2) have "status_code (fst (handler ?ev2 event d1)) = 200" by simp
    from handler_ok_applies[OF this] False have "batch_applied ev event"
      by (simp add: run_input_clock batch_applied_clock)
    moreover from acc have "\<forall>u\<in>set ?us. execute_outcome ?ev2 u = Accepted" by simp
    ultimately have d2: "users d2 = foldl (upsert ?ev2) (users d1) ?us"
      using u2 by (simp add: batch_users_all_accepted)
    have "\<exists>r\<in>set (users d2). col_email r = Some (email u)" if "u \<in> set ?us" for u
    proof -
      from that have "Some (email u) \<in> col_email ` set (users d2)"
        unfolding d2 fold_upsert_emails by blast
      then show ?thesis by force
    qed
    moreover have "stored_as r u" if "r \<in> set (users d2)" "last_with_email ?us (col_email r) = Some u" for r u
      using that unfolding d2 by (rule fold_upsert_stored)
    ultimately show ?thesis by blast
  qed
  from A B C show ?thesis by blast
qed

lemma second_run_keeps_rows_example:
  "handler example_env example_event example_db =
     (Response 200 (Processed 1 3 2 1), example_db_1, [example_notification])
   \<and> handler (example_env\<lparr>current_timestamp := 9\<rparr>) example_event example_db_1 =
     (Response 200 (Processed 2 3 2 1), example_db_2, [example_notification])
   \<and> distinct (emails (users example_db))
   \<and> map forget_updated (users example_db_2) = map forget_updated (users example_db_1)
   \<and> distinct (emails (users example_db_2))
   \<and> (\<exists>r\<in>set (users example_db_2). col_email r = Some ''c@x.org'')
   \<and> stored_as (users example_db_2 ! 0)
        \<lparr>email = ''a@x.org'', monthly_income = Finite 5000, credit_score = 700,
         employment_status = ''employed'', age = 30\<rparr>"
proof -
  have d: "distinct (emails (users example_db))"
    by (simp add: emails_def map_filter_simps example_db_def)
  have acc: "\<forall>u\<in>set (run_input example_env example_event). execute_outcome example_env u = Accepted"
    by (simp add: example_env_def)
  have lw: "last_with_email (run_input example_env example_event) (col_email (users example_db_2 ! 0))
      = Some \<lparr>email = ''a@x.org'', monthly_income = Finite 5000, credit_score = 700,
         employment_status = ''employed'', age = 30\<rparr>"
    by (simp add: ex_run_input last_with_email_def example_db_2_def example_users_after_def)
  have mem: "users example_db_2 ! 0 \<in> set (users example_db_2)"
    by (simp add: example_db_2_def example_users_after_def)
  note idem = second_run_keeps_rows[OF ex_run_1 ex_run_2]
  from idem have a: "map forget_updated (users example_db_2) = map forget_updated (users example_db_1)"
    by blast
  from idem d have b: "distinct (emails (users example_db_2))" by blast
  from idem acc have c: "(\<forall>u\<in>set (run_input example_env example_event).
         \<exists>r\<in>set (users example_db_2). col_email r = Some (email u))
      \<and> (\<forall>r\<in>set (users example_db_2). \<forall>u.
            last_with_email (run_input example_env example_event) (col_email r) = Some u \<longrightarrow> stored_as r u)"
    by (simp add: status_code_def)
  from c have e: "\<exists>r\<in>set (users example_db_2). col_email r = Some ''c@x.org''"
    by (simp add: ex_run_input)
  from c mem lw have f: "stored_as (users example_db_2 ! 0)
        \<lparr>email = ''a@x.org'', monthly_income = Finite 5000, credit_score = 700,
         employment_status = ''employed'', age = 30\<rparr>" by blast
  from ex_run_1 ex_run_2 d a b e f show ?thesis by blast
qed

text \<open>
  C3. The claim says that after two runs over the same payload no email is duplicated
  and every stored field value equals the value of the input. No email is duplicated,
  but the stored values need not be those of the input: when the store refuses one
  statement, the transaction of the whole batch is rolled back (the defect of the batch
  insert). In the example the server refuses the record of c@x.org in both runs. Both
  runs answer 200 and count the record of a@x.org as processed, its statement is
  accepted, and after the second run the row of a@x.org still holds the values from
  before the first (income 1000, credit score 600, student, 29), not those of the
  payload (5000, 700, employed, 30).
\<close>

theorem reprocessing_keeps_stale_values:
  "handler strict_env example_event example_db =
     (Response 200 (Processed 1 3 1 2), strict_db_1, [example_notification])
   \<and> handler (strict_env\<lparr>current_timestamp := 9\<rparr>) example_event strict_db_1 =
     (Response 200 (Processed 2 3 1 2), strict_db_2, [example_notification])
   \<and> run_input strict_env example_event =
       [\<lparr>email = ''a@x.org'', monthly_income = Finite 5000, credit_score = 700,
         employment_status = ''employed'', age = 30\<rparr>,
        \<lparr>email = ''c@x.org'', monthly_income = Finite 100, credit_score = 650,
         employment_status = ''none'', age = 40\<rparr>]
   \<and> execute_outcome strict_env
         \<lparr>email = ''a@x.org'', monthly_income = Finite 5000, credit_score = 700,
          employment_status = ''employed'', age = 30\<rparr> = Accepted
   \<and> users strict_db_2 =
       [\<lparr>col_user_id = None, col_name = None, col_email = Some ''a@x.org'',
         col_monthly_income = Finite 1000, col_credit_score = 600,
         col_employment_status = Some ''student'', col_age = 29,
         created_at = 1, updated_at = 1\<rparr>]"
proof -
  have a: "execute_outcome strict_env
         \<lparr>email = ''a@x.org'', monthly_income = Finite 5000, credit_score = 700,
          employment_status = ''employed'', age = 30\<rparr> = Accepted"
    by (simp add: strict_env_def)
  have b: "users strict_db_2 =
       [\<lparr>col_user_id = None, col_name = None, col_email = Some ''a@x.org'',
         col_monthly_income = Finite 1000, col_credit_score = 600,
         col_employment_status = Some ''student'', col_age = 29,
         created_at = 1, updated_at = 1\<rparr>]"
    by (simp add: strict_db_2_def example_db_def)
  from ex_strict_run_1 ex_strict_run_2 ex_strict_input a b show ?thesis by (intro conjI)
qed

section \<open>Failure isolation in the batch\<close>

text \<open>
  C4. The claim says that a store failure on one record neither aborts the later
  records nor rolls back the earlier ones, and that the counts say which records were
  applied. The code runs the whole batch in one transaction: with a server error on the
  record of c@x.org, the record of b@x.org before it is counted as a success and yet
  not stored, and a record after it is refused. Alone, the record of b@x.org is stored.
\<close>

theorem batch_failure_rolls_back:
  "insert_users_batch strict_env [example_user ''b@x.org'', example_user ''c@x.org''] example_db =
     Inr ((1, 1, [''Failed to insert user c@x.org: value too long for type character varying(50)''
                    @ [CHR 0x0A]]),
          example_db)
   \<and> insert_users_batch strict_env [example_user ''c@x.org'', example_user ''b@x.org''] example_db =
     Inr ((0, 2, [''Failed to insert user c@x.org: value too long for type character varying(50)''
                    @ [CHR 0x0A],
                  ''Failed to insert user b@x.org: current transaction is aborted, commands ignored until end of transaction block''
                    @ [CHR 0x0A]]),
          example_db)
   \<and> insert_users_batch strict_env [example_user ''b@x.org''] example_db =
     Inr ((1, 0, []),
          example_db\<lparr>users := users example_db @ [proposed_row 7 (example_user ''b@x.org'')]\<rparr>)"
  by (simp only: ex_batch_1 ex_batch_2 ex_batch_3)

section \<open>Rejection by the validator\<close>

text \<open>
  C5. A row whose credit score does not parse as an integer in [300, 850], or whose age
  does not parse as an integer in [18, 100], or whose trimmed email has no at sign, is
  rejected: the validator returns \<^verbatim>\<open>None\<close>, never a validated record. To parse is to be
  read by \<^verbatim>\<open>int\<close>; a row without the field does not parse.
\<close>

theorem validator_rejects_bad_rows:
  assumes "\<not> parses_in_range row ''credit_score'' 300 850
           \<or> \<not> parses_in_range row ''age'' 18 100
           \<or> \<not> trimmed_email_has_at row"
  shows "validate_user_data fp row = None"
  using assms by (rule validate_rejects)

theorem validator_rejects_bad_rows_witness:
  "\<not> parses_in_range (example_row ''a@x.org'' ''851'' ''30'') ''credit_score'' 300 850
   \<and> validate_user_data plain_float (example_row ''a@x.org'' ''851'' ''30'') = None
   \<and> \<not> parses_in_range (example_row ''a@x.org'' ''700'' ''seventeen'') ''age'' 18 100
   \<and> validate_user_data plain_float (example_row ''a@x.org'' ''700'' ''seventeen'') = None
   \<and> \<not> parses_in_range (example_row ''a@x.org'' ''700'' (CHR 0x1C # ''30'')) ''age'' 18 100
   \<and> validate_user_data plain_float (example_row ''a@x.org'' ''700'' (CHR 0x1C # ''30'')) = None
   \<and> \<not> trimmed_email_has_at (example_row ''a.x.org'' ''700'' ''30'')
   \<and> validate_user_data plain_float (example_row ''a.x.org'' ''700'' ''30'') = None"
proof -
  have a: "\<not> parses_in_range (example_row ''a@x.org'' ''851'' ''30'') ''credit_score'' 300 850"
    by (simp add: validator_eval)
  have b: "\<not> parses_in_range (example_row ''a@x.org'' ''700'' ''seventeen'') ''age'' 18 100"
    by (simp add: validator_eval)
  have c: "\<not> trimmed_email_has_at (example_row ''a.x.org'' ''700'' ''30'')"
    by (simp add: validator_eval)
  have d: "\<not> parses_in_range (example_row ''a@x.org'' ''700'' (CHR 0x1C # ''30'')) ''age'' 18 100"
    by (simp add: validator_eval)
  show ?thesis
    using a b c d
      validator_rejects_bad_rows[of "example_row ''a@x.org'' ''851'' ''30''" plain_float]
      validator_rejects_bad_rows[of "example_row ''a@x.org'' ''700'' ''seventeen''" plain_float]
      validator_rejects_bad_rows[of "example_row ''a@x.org'' ''700'' (CHR 0x1C # ''30'')" plain_float]
      validator_rejects_bad_rows[of "example_row ''a.x.org'' ''700'' ''30''" plain_float]
    by blast
qed

section \<open>Fetch failure\<close>

text \<open>
  C6, amended. When the object cannot be fetched, \<^verbatim>\<open>process_csv_file\<close> raises the
  exception of the object store; \<^verbatim>\<open>handler\<close> marks the upload \<^verbatim>\<open>failed\<close> with the text of
  the exception as its error message, whatever that text is, leaves the users table as
  it was, sends no notification, and answers its caller with status code 500 and the
  text. The lifecycle updates are assumed to reach the database.
\<close>

theorem fetch_failure:
  assumes "get_object ev bucket key = Inl e"
      and "db_fault ev CreateUpload = None" and "db_fault ev (UpdateStatus ''failed'') = None"
  shows "process_csv_file ev bucket key d0 = Inl e
     \<and> handler ev ((bucket, key) # rest) d =
         (Response 500 (Failed e),
          d\<lparr>csv_uploads := (csv_uploads d)(upload_id_seq d \<mapsto>
               \<lparr>up_file_name = basename key, up_s3_key = key, up_status = ''failed'',
                up_total_records = None, up_processed_records = None,
                up_failed_records = None, up_error_message = Some e,
                up_processed_at = Some (current_timestamp ev)\<rparr>),
            upload_id_seq := upload_id_seq d + 1\<rparr>, [])
     \<and> users (fst (snd (handler ev ((bucket, key) # rest) d))) = users d
     \<and> (\<exists>r. csv_uploads (fst (snd (handler ev ((bucket, key) # rest) d))) (upload_id_seq d) = Some r
            \<and> up_status r = ''failed'' \<and> up_error_message r = Some e)"
proof -
  note run = fetch_failure_run[OF assms, of d0 rest d]
  from run have p: "process_csv_file ev bucket key d0 = Inl e" by (rule conjunct1)
  from run have h: "handler ev ((bucket, key) # rest) d =
         (Response 500 (Failed e),
          d\<lparr>csv_uploads := (csv_uploads d)(upload_id_seq d \<mapsto>
               \<lparr>up_file_name = basename key, up_s3_key = key, up_status = ''failed'',
                up_total_records = None, up_processed_records = None,
                up_failed_records = None, up_error_message = Some e,
                up_processed_at = Some (current_timestamp ev)\<rparr>),
            upload_id_seq := upload_id_seq d + 1\<rparr>, [])" by (rule conjunct2)
  have u: "users (fst (snd (handler ev ((bucket, key) # rest) d))) = users d"
    unfolding h by simp
  have r: "\<exists>r. csv_uploads (fst (snd (handler ev ((bucket, key) # rest) d))) (upload_id_seq d) = Some r
            \<and> up_status r = ''failed'' \<and> up_error_message r = Some e"
    unfolding h by simp
  from p h u r show ?thesis by (intro conjI)
qed

theorem fetch_failure_witness:
  "get_object example_env ''ingest-bucket'' ''uploads/missing.csv'' = Inl ''NoSuchKey''
   \<and> process_csv_file example_env ''ingest-bucket'' ''uploads/missing.csv'' example_db = Inl ''NoSuchKey''
   \<and> handler example_env [(''ingest-bucket'', ''uploads/missing.csv'')] example_db =
        (Response 500 (Failed ''NoSuchKey''),
         example_db\<lparr>csv_uploads := (csv_uploads example_db)(1 \<mapsto>
              \<lparr>up_file_name = ''missing.csv'', up_s3_key = ''uploads/missing.csv'',
               up_status = ''failed'', up_total_records = None, up_processed_records = None,
               up_failed_records = None, up_error_message = Some ''NoSuchKey'',
               up_processed_at = Some 7\<rparr>),
           upload_id_seq := 2\<rparr>, [])"
  using fetch_failure[of example_env "''ingest-bucket''" "''uploads/missing.csv''" "''NoSuchKey''"
      example_db "[]" example_db]
  by (simp add: example_env_def example_db_def basename_def)

text \<open>
  The claim as stated fails: the error message need not be non-empty. It is the text of
  the exception, and an exception without text (\<^verbatim>\<open>MemoryError\<close>, raised while the body of
  the object is read, is one) is stored as the empty string and answered with it.
\<close>

theorem fetch_failure_without_text:
  "get_object no_text_env ''ingest-bucket'' ''uploads/a.csv'' = Inl []
   \<and> handler no_text_env example_event example_db =
        (Response 500 (Failed []),
         example_db\<lparr>csv_uploads := (csv_uploads example_db)(1 \<mapsto>
              \<lparr>up_file_name = ''a.csv'', up_s3_key = ''uploads/a.csv'',
               up_status = ''failed'', up_total_records = None, up_processed_records = None,
               up_failed_records = None, up_error_message = Some [],
               up_processed_at = Some 7\<rparr>),
           upload_id_seq := 2\<rparr>, [])"
proof -
  have "get_object no_text_env ''ingest-bucket'' ''uploads/a.csv'' = Inl []"
    by (simp add: no_text_env_def)
  with ex_no_text show ?thesis by (intro conjI)
qed

section \<open>The notifier\<close>

text \<open>
  C7. \<^verbatim>\<open>trigger_matching_workflow\<close> is invoked exactly once in a run that completes
  (status code 200), whatever the counts, and not at all otherwise; the response and the
  store of the run are the same for every webhook configuration and every outcome of
  the HTTP request (an exception, any status code, no URL).
\<close>

theorem notifier_once_and_harmless:
  "fst (handler (ev\<lparr>webhook_url := w, requests_post := rp\<rparr>) event d) = fst (handler ev event d)
   \<and> fst (snd (handler (ev\<lparr>webhook_url := w, requests_post := rp\<rparr>) event d)) = fst (snd (handler ev event d))
   \<and> snd (snd (handler ev event d)) =
       (if status_code (fst (handler ev event d)) = 200
        then [trigger_matching_workflow ev (fst (hd event)) (snd (hd event))] else [])"
proof (cases event)
  case Nil
  then show ?thesis by (simp add: handler_def status_code_def)
next
  case (Cons bk rest)
  obtain bucket key where bk: "bk = (bucket, key)" by (cases bk)
  let ?ev = "ev\<lparr>webhook_url := w, requests_post := rp\<rparr>"
  have A: "fst (handler ?ev event d) = fst (handler ev event d)
      \<and> fst (snd (handler ?ev event d)) = fst (snd (handler ev event d))"
    unfolding Cons bk handler_def
    by (simp add: create_ignores_notifier process_ignores_notifier update_ignores_notifier
        handler_except_ignores_notifier split: sum.splits prod.splits)
  have B: "snd (snd (handler ev event d)) =
       (if status_code (fst (handler ev event d)) = 200
        then [trigger_matching_workflow ev bucket key] else [])"
    unfolding Cons bk handler_def
    by (simp add: handler_except_silent status_code_def[of "Response 200 b" for b]
          status_code_def[of "Response 500 b" for b] split: sum.splits prod.splits)
  from A B Cons bk show ?thesis by simp
qed

theorem notifier_once_and_harmless_witness:
  "fst (handler (example_env\<lparr>webhook_url := None, requests_post := (\<lambda>url payload. Inr 503)\<rparr>)
          example_event example_db) = Response 200 (Processed 1 3 2 1)
   \<and> fst (snd (handler (example_env\<lparr>webhook_url := None, requests_post := (\<lambda>url payload. Inr 503)\<rparr>)
          example_event example_db)) = example_db_1
   \<and> snd (snd (handler example_env example_event example_db)) = [example_notification]"
  using notifier_once_and_harmless[where ev = example_env and w = None
      and rp = "\<lambda>url payload. Inr 503" and event = example_event and d = example_db]
  by (simp add: ex_run_1)

section \<open>Rejected rows\<close>

text \<open>
  C8, amended. For every row the validator rejects, the error list of a run of
  \<^verbatim>\<open>process_csv_file\<close> that returns holds the text \<^verbatim>\<open>Row n: Invalid data\<close>, with n the
  position of the row among the data rows, at the index given by the number of rejected
  rows before it; a run of \<^verbatim>\<open>handler\<close> that answers 200 stores the first ten entries of
  that list, joined with a semicolon and a space, as the error message of the upload.
  The row is never partially accepted: the records handed to the store are the
  validated records of the accepted rows, the same as if the rejected row were not in
  the payload.
\<close>

theorem rejected_rows_recorded_and_dropped:
  assumes "get_object ev bucket key = Inr content" and "csv_reader ev content = Inr recs"
      and "i < length (DictReader recs)" and "rejected (float_of_str ev) (DictReader recs ! i)"
  shows "process_csv_file ev bucket key d =
     (let rows = DictReader recs; us = accepted_users (float_of_str ev) rows;
          msgs = rejection_messages (float_of_str ev) 0 rows
      in if us \<noteq> [] then
           (case insert_users_batch ev us d of
              Inl e \<Rightarrow> Inl e
            | Inr ((s, f, db_errors), d') \<Rightarrow>
                Inr ((length rows, s, length (filter (rejected (float_of_str ev)) rows) + f,
                      msgs @ db_errors), d'))
         else Inr ((length rows, 0, length rows, msgs), d))
     \<and> (\<forall>t p f errs d'. process_csv_file ev bucket key d = Inr ((t, p, f, errs), d') \<longrightarrow>
           length (filter (rejected (float_of_str ev)) (take i (DictReader recs))) < length errs
           \<and> errs ! length (filter (rejected (float_of_str ev)) (take i (DictReader recs))) =
               ''Row '' @ str_nat (i + 1) @ '': Invalid data'')
     \<and> (\<forall>resp d' ns. handler ev ((bucket, key) # rest) d = (resp, d', ns) \<and> status_code resp = 200 \<longrightarrow>
           (\<exists>t p f errs d2 r.
               process_csv_file ev bucket key (created key d) = Inr ((t, p, f, errs), d2)
               \<and> csv_uploads d' (upload_id_seq d) = Some r
               \<and> up_error_message r = Some (join ''; '' (take 10 errs))))
     \<and> accepted_users (float_of_str ev) (DictReader recs) =
         accepted_users (float_of_str ev) (take i (DictReader recs) @ drop (Suc i) (DictReader recs))"
proof -
  let ?fp = "float_of_str ev"
  let ?rows = "DictReader recs"
  let ?k = "length (filter (rejected ?fp) (take i ?rows))"
  let ?msg = "''Row '' @ str_nat (i + 1) @ '': Invalid data''"
  note pos = rejection_message_position[OF assms(3,4)]
  have listed: "?k < length errs \<and> errs ! ?k = ?msg"
    if "process_csv_file ev bucket key d1 = Inr ((t, p, f, errs), d')" for d1 t p f errs d'
  proof -
    from process_errors_prefix[OF assms(1,2) that] obtain db_errors where
      "errs = rejection_messages ?fp 0 ?rows @ db_errors" by blast
    with pos show ?thesis by (simp add: nth_append)
  qed
  have stored: "\<exists>t p f errs d2 r.
               process_csv_file ev bucket key (created key d) = Inr ((t, p, f, errs), d2)
               \<and> csv_uploads d' (upload_id_seq d) = Some r
               \<and> up_error_message r = Some (join ''; '' (take 10 errs))"
    if "handler ev ((bucket, key) # rest) d = (resp, d', ns)" "status_code resp = 200" for resp d' ns
  proof -
    from handler_completed_message[OF that] obtain t p f errs d2 r where
      pr: "process_csv_file ev bucket key (created key d) = Inr ((t, p, f, errs), d2)"
      and r: "csv_uploads d' (upload_id_seq d) = Some r"
        "up_error_message r = (if errs \<noteq> [] then Some (join ''; '' (take 10 errs)) else None)"
      by blast
    from listed[OF pr] have "errs \<noteq> []" by auto
    with pr r show ?thesis by auto
  qed
  from process_csv_file_closed[OF assms(1,2), of d] listed[of d] stored
    accepted_users_drop_rejected[OF assms(3,4)]
  show ?thesis by blast
qed

theorem rejected_rows_recorded_and_dropped_witness:
  "get_object example_env ''ingest-bucket'' ''uploads/a.csv'' = Inr example_payload
   \<and> csv_reader example_env example_payload = plain_reader example_payload
   \<and> rejected plain_float second_example_row
   \<and> process_csv_file example_env ''ingest-bucket'' ''uploads/a.csv'' example_db =
        Inr ((3, 2, 1, [''Row 2: Invalid data'']), example_db\<lparr>users := example_users_after 7\<rparr>)
   \<and> [''Row 2: Invalid data''] ! length (filter (rejected plain_float)
        (take 1 (DictReader [[''email'', ''monthly_income'', ''credit_score'', ''employment_status'', ''age''],
      [''a@x.org'', ''5000'', ''700'', ''employed'', ''30''],
      [''b@x.org'', ''100'', ''200'', ''none'', ''40''],
      [''c@x.org'', ''100'', ''650'', ''none'', ''40'']]))) = ''Row 2: Invalid data''
   \<and> handler example_env example_event example_db =
        (Response 200 (Processed 1 3 2 1), example_db_1, [example_notification])
   \<and> (\<exists>r. csv_uploads example_db_1 1 = Some r \<and> up_error_message r = Some ''Row 2: Invalid data'')"
proof -
  let ?recs = "[[''email'', ''monthly_income'', ''credit_score'', ''employment_status'', ''age''],
      [''a@x.org'', ''5000'', ''700'', ''employed'', ''30''],
      [''b@x.org'', ''100'', ''200'', ''none'', ''40''],
      [''c@x.org'', ''100'', ''650'', ''none'', ''40'']]"
  have g: "get_object example_env ''ingest-bucket'' ''uploads/a.csv'' = Inr example_payload"
    by (simp add: example_env_def)
  have r: "csv_reader example_env example_payload = Inr ?recs"
    by (simp add: example_env_def example_records)
  have r': "csv_reader example_env example_payload = plain_reader example_payload"
    by (simp add: example_env_def)
  have fp: "float_of_str example_env = plain_float" by (simp add: example_env_def)
  have rej: "rejected plain_float second_example_row"
    by (simp add: rejected_def validate_user_data_def ex_row_2_exception)
  have len: "1 < length (DictReader ?recs)"
    by (simp add: DictReader_def)
  from rej have rej': "rejected (float_of_str example_env) (DictReader ?recs ! 1)"
    unfolding fp ex_rows .
  have run: "handler example_env ((''ingest-bucket'', ''uploads/a.csv'') # []) example_db =
      (Response 200 (Processed 1 3 2 1), example_db_1, [example_notification])"
    using ex_run_1 by (simp add: example_event_def)
  have ok: "status_code (Response 200 (Processed 1 3 2 1)) = 200" by (simp add: status_code_def)
  have seq: "upload_id_seq example_db = 1" by (simp add: example_db_def)
  note claim = rejected_rows_recorded_and_dropped[OF g r len rej', of example_db "[]"]
  from claim ex_process
  have pos: "[''Row 2: Invalid data''] ! length (filter (rejected plain_float) (take 1 (DictReader ?recs)))
      = ''Row '' @ str_nat (1 + 1) @ '': Invalid data''"
    unfolding fp by blast
  have pos': "[''Row 2: Invalid data''] ! length (filter (rejected plain_float) (take 1 (DictReader ?recs)))
      = ''Row 2: Invalid data''"
    using pos by (simp add: str_nat.simps digit_char_def)
  from claim run ok obtain t p f errs d2 r where
    pr: "process_csv_file example_env ''ingest-bucket'' ''uploads/a.csv''
            (created ''uploads/a.csv'' example_db) = Inr ((t, p, f, errs), d2)"
    and st: "csv_uploads example_db_1 (upload_id_seq example_db) = Some r"
       "up_error_message r = Some (join ''; '' (take 10 errs))"
    by blast
  from pr ex_process_created have "errs = [''Row 2: Invalid data'']" by simp
  with st seq have sto: "\<exists>r. csv_uploads example_db_1 1 = Some r \<and> up_error_message r = Some ''Row 2: Invalid data''"
    by simp
  from g r' rej ex_process pos' ex_run_1 sto show ?thesis by (intro conjI)
qed

text \<open>
  The claim as stated fails: the second row of the example payload is rejected for its
  credit score 200, and the entry of the error list for it, which is also the error
  message stored for the upload, names neither the field nor the value.
\<close>

theorem rejection_omits_field_and_value:
  "DictReader [[''email'', ''monthly_income'', ''credit_score'', ''employment_status'', ''age''],
      [''a@x.org'', ''5000'', ''700'', ''employed'', ''30''],
      [''b@x.org'', ''100'', ''200'', ''none'', ''40''],
      [''c@x.org'', ''100'', ''650'', ''none'', ''40'']] ! 1 = second_example_row
   \<and> validate_user_data_try plain_float second_example_row
        = Inl (ValueError ''Credit score 200 out of range (300-850)'')
   \<and> process_csv_file example_env ''ingest-bucket'' ''uploads/a.csv'' example_db =
        Inr ((3, 2, 1, [''Row 2: Invalid data'']), example_db\<lparr>users := example_users_after 7\<rparr>)
   \<and> fst (handler example_env example_event example_db) = Response 200 (Processed 1 3 2 1)
   \<and> map_option up_error_message
        (csv_uploads (fst (snd (handler example_env example_event example_db))) 1)
        = Some (Some ''Row 2: Invalid data'')
   \<and> \<not> sublist ''200'' ''Row 2: Invalid data''
   \<and> \<not> sublist ''credit'' ''Row 2: Invalid data''
   \<and> \<not> sublist ''Credit'' ''Row 2: Invalid data''"
proof -
  have a: "\<not> sublist ''200'' ''Row 2: Invalid data''" by (simp add: sublist_Cons_right)
  have b: "\<not> sublist ''credit'' ''Row 2: Invalid data''" by (simp add: sublist_Cons_right)
  have c: "\<not> sublist ''Credit'' ''Row 2: Invalid data''" by (simp add: sublist_Cons_right)
  have d: "fst (handler example_env example_event example_db) = Response 200 (Processed 1 3 2 1)"
    by (simp add: ex_run_1)
  have e: "map_option up_error_message
        (csv_uploads (fst (snd (handler example_env example_event example_db))) 1)
        = Some (Some ''Row 2: Invalid data'')"
    by (simp add: ex_run_1 example_db_1_def example_upload_def)
  from ex_rows ex_row_2_exception ex_process a b c d e show ?thesis by (intro conjI)
qed

section \<open>The empty payload\<close>

text \<open>
  C9. A payload with zero data rows gives total = 0, processed = 0, failed = 0; the
  batch insert is not called (the result does not depend on the database faults of the
  batch), and the upload is finalized as \<^verbatim>\<open>completed\<close>.
\<close>

theorem empty_payload:
  assumes "get_object ev bucket key = Inr content" and "csv_reader ev content = Inr recs"
      and "DictReader recs = []"
      and "db_fault ev CreateUpload = None" and "db_fault ev (UpdateStatus ''completed'') = None"
  shows "process_csv_file ev bucket key d0 = Inr ((0, 0, 0, []), d0)
     \<and> handler ev ((bucket, key) # rest) d =
         (Response 200 (Processed (upload_id_seq d) 0 0 0),
          d\<lparr>csv_uploads := (csv_uploads d)(upload_id_seq d \<mapsto>
               \<lparr>up_file_name = basename key, up_s3_key = key, up_status = ''completed'',
                up_total_records = Some 0, up_processed_records = Some 0,
                up_failed_records = Some 0, up_error_message = None,
                up_processed_at = Some (current_timestamp ev)\<rparr>),
            upload_id_seq := upload_id_seq d + 1\<rparr>,
          [trigger_matching_workflow ev bucket key])"
proof -
  have p: "process_csv_file ev bucket key d1 = Inr ((0, 0, 0, []), d1)" for d1
    by (simp add: process_csv_file_closed[OF assms(1,2)] assms(3) accepted_users_Nil
        rejection_messages_Nil)
  have u: "update_csv_upload_status ev (upload_id_seq d) ''completed'' (Some 0) (Some 0) (Some 0) None (created key d)
        = Inr ((), (created key d)\<lparr>csv_uploads := (csv_uploads (created key d))(upload_id_seq d \<mapsto>
             update_row (current_timestamp ev) ''completed'' (Some 0) (Some 0) (Some 0) None (pending_row (basename key) key))\<rparr>)"
    by (rule update_ok[OF assms(5)]) (simp add: created_simps)
  have "handler ev ((bucket, key) # rest) d =
      (Response 200 (Processed (upload_id_seq d) 0 0 0),
       (created key d)\<lparr>csv_uploads := (csv_uploads (created key d))(upload_id_seq d \<mapsto>
             update_row (current_timestamp ev) ''completed'' (Some 0) (Some 0) (Some 0) None (pending_row (basename key) key))\<rparr>,
       [trigger_matching_workflow ev bucket key])"
    by (simp add: p handler_created[OF assms(4)] u)
  then show ?thesis
    by (simp add: p update_row_completed created_def)
qed

theorem empty_payload_witness:
  "DictReader [[''email'', ''age'']] = []
   \<and> db_fault outage_env InsertBatch = Some ''connection refused''
   \<and> handler outage_env [(''ingest-bucket'', ''uploads/empty.csv'')] example_db =
        (Response 200 (Processed 1 0 0 0),
         example_db\<lparr>csv_uploads := (csv_uploads example_db)(1 \<mapsto>
              \<lparr>up_file_name = ''empty.csv'', up_s3_key = ''uploads/empty.csv'',
               up_status = ''completed'', up_total_records = Some 0,
               up_processed_records = Some 0, up_failed_records = Some 0,
               up_error_message = None, up_processed_at = Some 7\<rparr>),
           upload_id_seq := 2\<rparr>,
         [Requested ''http://n8n.example/webhook''
            [(''event'', ''csv_processed''), (''bucket'', ''ingest-bucket''),
             (''key'', ''uploads/empty.csv''), (''timestamp'', ''{}'')]
            (Inl ''connection refused'')])"
  using empty_payload[of outage_env "''ingest-bucket''" "''uploads/empty.csv''"
      "''email,age'' @ [CHR 0x0A]" "[[''email'', ''age'']]" example_db "[]" example_db]
  by (simp add: outage_env_def example_env_def example_db_def basename_def DictReader_def
        plain_reader_def splitlines_def trigger_matching_workflow_def)

section \<open>Missing credit score or age\<close>

text \<open>
  C10. A row without the key \<^verbatim>\<open>credit_score\<close>, and likewise a row without the key
  \<^verbatim>\<open>age\<close>, is rejected: the missing value is replaced by 0, which \<^verbatim>\<open>int\<close> returns
  unchanged and which lies outside [300, 850] and outside [18, 100].
\<close>

theorem missing_score_or_age_rejected:
  "(row ''credit_score'' = None \<longrightarrow>
      py_int (row_get row ''credit_score'' (PyInt 0)) = Inr 0
      \<and> validate_user_data fp row = None)
   \<and> (row ''age'' = None \<longrightarrow>
      py_int (row_get row ''age'' (PyInt 0)) = Inr 0
      \<and> validate_user_data fp row = None)"
proof -
  have "validate_user_data fp row = None"
    if "row k = None" and "k = ''credit_score'' \<or> k = ''age''" for k
  proof -
    from that have "\<not> parses_in_range row ''credit_score'' 300 850
                    \<or> \<not> parses_in_range row ''age'' 18 100"
      by (auto simp: parses_in_range_def)
    then show ?thesis by (intro validate_rejects) blast
  qed
  then show ?thesis by (simp add: row_get_def)
qed

theorem missing_score_or_age_rejected_witness:
  "row_without ''credit_score'' ''credit_score'' = None
   \<and> validate_user_data plain_float (row_without ''credit_score'') = None
   \<and> row_without ''age'' ''age'' = None
   \<and> validate_user_data plain_float (row_without ''age'') = None"
  using missing_score_or_age_rejected[of "row_without ''credit_score''" plain_float]
        missing_score_or_age_rejected[of "row_without ''age''" plain_float]
  by (simp add: row_without_def)

end
